theory Spec2Isabelle
  imports Complex_Main
begin

section \<open>Data model\<close>

text \<open>
  The engine lives in the \<open>App\<close> component (the second document of \<open>src/types.ts\<close>).
  JavaScript numbers that hold money are modelled as exact reals (no rounding, no NaN,
  no infinities); the counters \<open>tickCount\<close>, \<open>historyCount\<close> and \<open>currentRound\<close>, which
  only ever start at 0 or 1 and are incremented, are naturals; \<open>Date.now()\<close> is an
  integer number of milliseconds.

  Optional and missing object fields are \<open>option\<close> values: \<open>None\<close> is JavaScript's
  \<open>undefined\<close>.  The field \<open>id\<close> of \<open>Player\<close> is called \<open>idP\<close>, the field \<open>round\<close> of
  \<open>ChartDataPoint\<close> is called \<open>roundC\<close>, and the component state \<open>multiplier\<close> is called
  \<open>multiplierS\<close>, because the plain names are taken.
\<close>

record Player =
  idP :: string
  deposit :: real
  target :: real
  collected :: real
  entryRound :: nat
  timestamp :: int
  slashed :: "bool option"
  multiplier :: "real option"

datatype DistributionStrategy = STANDARD | COMMUNITY_YIELD

record ChartDataPoint =
  roundC :: real
  usersTrapped :: nat
  requiredNewLiquidity :: real

record EngineState =
  queue :: "Player list"
  historyCount :: nat
  historySum :: real
  totalDeposited :: real
  protocolBalance :: real
  currentRound :: nat
  chartData :: "ChartDataPoint list"
  tickCount :: nat

text \<open>The React state that the engine's closures read.\<close>

record Settings =
  multiplierS :: real
  strategy :: DistributionStrategy
  guillotineEnabled :: bool
  dynamicDecayEnabled :: bool
  winnersTaxEnabled :: bool

definition INITIAL_RESERVE :: real where
  "INITIAL_RESERVE = 1000"

definition FEE_PERCENT :: real where
  "FEE_PERCENT = 1 / 100"

definition GUILLOTINE_INTERVAL :: nat where
  "GUILLOTINE_INTERVAL = 60"

definition PROTOCOL_SEED :: string where
  "PROTOCOL_SEED = ''PROTOCOL_SEED''"

subsection \<open>Results of the library calls\<close>

text \<open>
  \<open>Math.random()\<close> returns a number \<open>r\<close> with \<open>0 \<le> r < 1\<close>; the type \<open>random01\<close> holds
  exactly these values.
\<close>

typedef random01 = "{r :: real. 0 \<le> r \<and> r < 1}"
  by (rule exI [of _ 0]) simp

text \<open>
  One call of the engine reads the outside world through an \<open>Oracle\<close>:
  \<open>uuid\<close> is what \<open>uuidv4()\<close> returns, \<open>nowCreate\<close> what \<open>Date.now()\<close> returns when the
  new player is built, \<open>nowSweep i\<close> what \<open>Date.now()\<close> returns while the cleanup sweep
  looks at position \<open>i\<close> of the queue, and \<open>rnd i\<close> what \<open>Math.random()\<close> returns in
  iteration \<open>i\<close> of the Guillotine's victim loop.
\<close>

record Oracle =
  uuid :: string
  nowCreate :: int
  nowSweep :: "nat \<Rightarrow> int"
  rnd :: "nat \<Rightarrow> random01"

section \<open>The engine\<close>

definition initialEngine :: EngineState where
  "initialEngine =
     \<lparr>queue = [], historyCount = 0, historySum = 0, totalDeposited = 0,
      protocolBalance = INITIAL_RESERVE, currentRound = 1, chartData = [],
      tickCount = 0\<rparr>"

subsection \<open>The Guillotine\<close>

text \<open>
  \<open>candidates\<close>, \<open>pool\<close> and \<open>victims\<close> are arrays of references to the objects of
  \<open>state.queue\<close>, and the slash mutates these objects in place.  Every slot of the queue
  holds an object of its own (each comes from one object literal in \<open>processDeposit\<close>
  and is pushed once), so a reference is modelled as the position of the object in
  the queue.
\<close>

definition truthy :: "bool option \<Rightarrow> bool" where
  "truthy b = (b = Some True)"

definition liability :: "Player \<Rightarrow> real" where
  "liability p = target p - collected p"

text \<open>
  \<open>Array.prototype.sort\<close> is stable, and the comparator
  \<open>(b.target - b.collected) - (a.target - a.collected)\<close> orders by descending
  liability, which is ascending order of the negated liability.
\<close>

definition candidates :: "Player list \<Rightarrow> nat list" where
  "candidates q =
     take 30 (sort_key (\<lambda>i. - liability (q ! i))
       (filter (\<lambda>i. \<not> truthy (slashed (q ! i))) [0..<length q]))"

definition randIndex :: "random01 \<Rightarrow> nat \<Rightarrow> nat" where
  "randIndex r n = nat \<lfloor>Rep_random01 r * real n\<rfloor>"

definition splice1 :: "nat \<Rightarrow> 'a list \<Rightarrow> 'a list" where
  "splice1 k xs = take k xs @ drop (Suc k) xs"

function pickVictims :: "(nat \<Rightarrow> random01) \<Rightarrow> nat \<Rightarrow> nat list \<Rightarrow> nat list \<Rightarrow> nat list" where
  "pickVictims r i pool victims =
     (if i < 10 then
        (if length pool = 0 then victims
         else pickVictims r (i + 1)
                (splice1 (randIndex (r i) (length pool)) pool)
                (victims @ [pool ! randIndex (r i) (length pool)]))
      else victims)"
  by pat_completeness auto
termination
  by (relation "measure (\<lambda>(r, i, pool, victims). 10 - i)") auto

declare pickVictims.simps [simp del]

text \<open>The body of \<open>victims.forEach\<close>, on the object and on the queue slot that holds it.\<close>

definition haircut :: "Player \<Rightarrow> Player" where
  "haircut v = v\<lparr>target := target v * (80 / 100), slashed := Some True\<rparr>"

definition slash :: "Player list \<Rightarrow> nat \<Rightarrow> Player list" where
  "slash q v = q[v := haircut (q ! v)]"

definition victimsOf :: "(nat \<Rightarrow> random01) \<Rightarrow> Player list \<Rightarrow> nat list" where
  "victimsOf r q = pickVictims r 0 (candidates q) []"

definition triggerGuillotine :: "(nat \<Rightarrow> random01) \<Rightarrow> EngineState \<Rightarrow> EngineState" where
  "triggerGuillotine r state =
     (if length (queue state) < 5 then state
      else if length (candidates (queue state)) = 0 then state
      else state\<lparr>queue := foldl slash (queue state) (victimsOf r (queue state))\<rparr>)"

subsection \<open>processDeposit\<close>

definition actualFee :: "real \<Rightarrow> real" where
  "actualFee amount = max 1 (amount * FEE_PERCENT)"

definition netAmountOf :: "real \<Rightarrow> bool \<Rightarrow> real" where
  "netAmountOf amount isSystem = (if \<not> isSystem then amount - actualFee amount else amount)"

definition yieldPoolOf :: "Settings \<Rightarrow> real \<Rightarrow> real" where
  "yieldPoolOf cfg netAmount =
     (if strategy cfg = COMMUNITY_YIELD then netAmount * (20 / 100) else 0)"

definition headPoolOf :: "Settings \<Rightarrow> real \<Rightarrow> real" where
  "headPoolOf cfg netAmount =
     (if strategy cfg = COMMUNITY_YIELD then netAmount * (80 / 100) else netAmount)"

definition effectiveMultiplier :: "Settings \<Rightarrow> bool \<Rightarrow> nat \<Rightarrow> real" where
  "effectiveMultiplier cfg isSystem queueLength =
     (if dynamicDecayEnabled cfg \<and> \<not> isSystem
      then max (11 / 10) (multiplierS cfg - real (queueLength div 10) * (5 / 100))
      else multiplierS cfg)"

text \<open>The object literal of step 4; it has no \<open>multiplier\<close> property.\<close>

definition newPlayer :: "Settings \<Rightarrow> Oracle \<Rightarrow> real \<Rightarrow> bool \<Rightarrow> EngineState \<Rightarrow> Player" where
  "newPlayer cfg orc amount isSystem state =
     \<lparr>idP = (if isSystem then PROTOCOL_SEED else uuid orc),
      deposit = amount,
      target = amount * effectiveMultiplier cfg isSystem (length (queue state)),
      collected = 0,
      entryRound = currentRound state,
      timestamp = nowCreate orc,
      slashed = Some False,
      multiplier = None\<rparr>"

definition distributeYield :: "real \<Rightarrow> Player list \<Rightarrow> Player list" where
  "distributeYield yieldPool q =
     (if yieldPool > 0 \<and> length q > 0
      then map (\<lambda>p. p\<lparr>collected := collected p + yieldPool / real (length q)\<rparr>) q
      else q)"

text \<open>The FIFO loop of step 6; the second component is \<open>remaining\<close> after the loop.\<close>

fun distributeHead :: "real \<Rightarrow> Player list \<Rightarrow> Player list \<times> real" where
  "distributeHead remaining [] = ([], remaining)"
| "distributeHead remaining (p # ps) =
     (if remaining \<le> 0 then (p # ps, remaining)
      else if target p - collected p \<le> 0 then
        (case distributeHead remaining ps of (ps', r) \<Rightarrow> (p # ps', r))
      else if remaining \<ge> target p - collected p then
        (case distributeHead (remaining - (target p - collected p)) ps of
           (ps', r) \<Rightarrow> (p\<lparr>collected := collected p + (target p - collected p)\<rparr> # ps', r))
      else
        (case distributeHead 0 ps of
           (ps', r) \<Rightarrow> (p\<lparr>collected := collected p + remaining\<rparr> # ps', r)))"

text \<open>
  What the cleanup sweep does with one fully paid player at queue position \<open>i\<close>:
  the player object after \<open>p.collected = p.target\<close>, and the ledger.
\<close>

definition exitPlayer ::
  "Settings \<Rightarrow> (nat \<Rightarrow> int) \<Rightarrow> bool \<Rightarrow> nat \<Rightarrow> Player \<Rightarrow> EngineState \<Rightarrow> Player \<times> EngineState" where
  "exitPlayer cfg now isSystem i p state =
     (let p1 = p\<lparr>collected := target p\<rparr>;
          state1 =
            (if winnersTaxEnabled cfg \<and> \<not> isSystem \<and> now i - timestamp p1 < 10000 then
               (if collected p1 - deposit p1 > 0
                then state\<lparr>protocolBalance :=
                       protocolBalance state + (collected p1 - deposit p1) * (20 / 100)\<rparr>
                else state)
             else state)
      in (p1, state1\<lparr>historyCount := historyCount state1 + 1,
                     historySum := historySum state1 + target p1\<rparr>))"

text \<open>The loop of step 8 from position \<open>i\<close> on; the first component is \<open>nextQueue\<close>.\<close>

fun cleanupSweep ::
  "Settings \<Rightarrow> (nat \<Rightarrow> int) \<Rightarrow> bool \<Rightarrow> nat \<Rightarrow> Player list \<Rightarrow> EngineState
     \<Rightarrow> Player list \<times> EngineState" where
  "cleanupSweep cfg now isSystem i [] state = ([], state)"
| "cleanupSweep cfg now isSystem i (p # ps) state =
     (if collected p \<ge> target p - 1 / 100 then
        cleanupSweep cfg now isSystem (i + 1) ps (snd (exitPlayer cfg now isSystem i p state))
      else
        (case cleanupSweep cfg now isSystem (i + 1) ps state of
           (nextQueue, state') \<Rightarrow> (p # nextQueue, state')))"

definition pushChart :: "EngineState \<Rightarrow> EngineState" where
  "pushChart state =
     (let liab = foldl (\<lambda>acc p. acc + (target p - collected p)) 0 (queue state);
          cd = chartData state @
                 [\<lparr>roundC = totalDeposited state, usersTrapped = length (queue state),
                   requiredNewLiquidity = liab\<rparr>]
      in state\<lparr>chartData := (if length cd > 100 then tl cd else cd)\<rparr>)"

text \<open>Steps 0 to 3: tick, Guillotine check, fee, total.\<close>

definition takeFee :: "Settings \<Rightarrow> Oracle \<Rightarrow> real \<Rightarrow> bool \<Rightarrow> EngineState \<Rightarrow> EngineState" where
  "takeFee cfg orc amount isSystem state =
     (let state1 = state\<lparr>tickCount := tickCount state + 1\<rparr>;
          state2 = (if guillotineEnabled cfg \<and> tickCount state1 mod GUILLOTINE_INTERVAL = 0
                    then triggerGuillotine (rnd orc) state1 else state1);
          state3 = (if \<not> isSystem
                    then state2\<lparr>protocolBalance := protocolBalance state2 + actualFee amount\<rparr>
                    else state2)
      in state3\<lparr>totalDeposited := totalDeposited state3 + amount\<rparr>)"

text \<open>Steps 5 to 7: the queue after the yield drip, the FIFO loop and the push.\<close>

definition paidQueue :: "Settings \<Rightarrow> Oracle \<Rightarrow> real \<Rightarrow> bool \<Rightarrow> EngineState \<Rightarrow> Player list" where
  "paidQueue cfg orc amount isSystem state =
     fst (distributeHead (headPoolOf cfg (netAmountOf amount isSystem))
            (distributeYield (yieldPoolOf cfg (netAmountOf amount isSystem)) (queue state)))
     @ [newPlayer cfg orc amount isSystem state]"

definition processDeposit :: "Settings \<Rightarrow> Oracle \<Rightarrow> real \<Rightarrow> bool \<Rightarrow> EngineState \<Rightarrow> EngineState" where
  "processDeposit cfg orc amount isSystem state =
     (let state4 = takeFee cfg orc amount isSystem state;
          state7 = state4\<lparr>queue := paidQueue cfg orc amount isSystem state4\<rparr>
      in case cleanupSweep cfg (nowSweep orc) isSystem 0 (queue state7) state7 of
           (nextQueue, state8) \<Rightarrow> pushChart (state8\<lparr>queue := nextQueue\<rparr>))"

subsection \<open>Resets\<close>

text \<open>The refund loop; the second component is \<open>surplus\<close> after the loop.\<close>

fun refundLoop :: "real \<Rightarrow> Player list \<Rightarrow> Player list \<times> real" where
  "refundLoop surplus [] = ([], surplus)"
| "refundLoop surplus (p # ps) =
     (if surplus \<le> 0 then (p # ps, surplus)
      else if max 0 (deposit p - collected p) > 0 then
        (case refundLoop (surplus - min surplus (max 0 (deposit p - collected p))) ps of
           (ps', s') \<Rightarrow>
             (p\<lparr>collected := collected p + min surplus (max 0 (deposit p - collected p))\<rparr> # ps', s'))
      else
        (case refundLoop surplus ps of (ps', s') \<Rightarrow> (p # ps', s')))"

definition refundPhase :: "EngineState \<Rightarrow> EngineState" where
  "refundPhase state =
     (let surplus = max 0 (protocolBalance state - INITIAL_RESERVE)
      in if surplus > 0 then
           (case refundLoop surplus (queue state) of
              (q', surplus') \<Rightarrow>
                state\<lparr>queue := q', protocolBalance := INITIAL_RESERVE + surplus'\<rparr>)
         else state)"

definition handleMidnightReset :: "Settings \<Rightarrow> Oracle \<Rightarrow> EngineState \<Rightarrow> EngineState" where
  "handleMidnightReset cfg orc state =
     (let state1 = refundPhase state;
          state2 = state1\<lparr>queue := []\<rparr>;
          state3 = state2\<lparr>currentRound := currentRound state2 + 1\<rparr>
      in if protocolBalance state3 \<ge> 100
         then processDeposit cfg orc 100 True
                (state3\<lparr>protocolBalance := protocolBalance state3 - 100\<rparr>)
         else state3)"

definition handleFullReset :: "EngineState \<Rightarrow> EngineState" where
  "handleFullReset state = initialEngine"

section \<open>Notions of the specification\<close>

text \<open>
  Ranking by descending remaining liability, ties broken by the position in the queue:
  \<open>outranks q i j\<close> says that the player at position \<open>i\<close> comes before the one at \<open>j\<close>.
\<close>

definition outranks :: "Player list \<Rightarrow> nat \<Rightarrow> nat \<Rightarrow> bool" where
  "outranks q i j =
     (liability (q ! i) > liability (q ! j) \<or>
      (liability (q ! i) = liability (q ! j) \<and> i < j))"

definition unslashed :: "Player list \<Rightarrow> nat list" where
  "unslashed q = filter (\<lambda>i. \<not> truthy (slashed (q ! i))) [0..<length q]"

section \<open>Inputs of the scenarios\<close>

text \<open>
  A crowd of five for the Guillotine: the second player was slashed before, the others
  owe 200, 600, 800 and 1000.  \<open>halfRnd\<close> is a \<open>Math.random\<close> that always returns 0.5.
\<close>

definition mkPlayer :: "string \<Rightarrow> real \<Rightarrow> real \<Rightarrow> real \<Rightarrow> bool \<Rightarrow> Player" where
  "mkPlayer n d t c sl =
     \<lparr>idP = n, deposit = d, target = t, collected = c, entryRound = 1, timestamp = 0,
      slashed = Some sl, multiplier = None\<rparr>"

definition crowd5 :: EngineState where
  "crowd5 =
     initialEngine\<lparr>queue :=
       [mkPlayer ''a'' 100 200 0 False, mkPlayer ''b'' 200 320 0 True,
        mkPlayer ''c'' 300 600 0 False, mkPlayer ''d'' 400 800 0 False,
        mkPlayer ''e'' 500 1000 0 False]\<rparr>"

definition halfRnd :: "nat \<Rightarrow> random01" where
  "halfRnd i = Abs_random01 (1 / 2)"

text \<open>A queue of 31 unslashed players whose liabilities grow with the position.\<close>

definition crowd31 :: "Player list" where
  "crowd31 = map (\<lambda>k. mkPlayer ''w'' (real k + 1) (2 * (real k + 1)) 0 False) [0..<31]"

definition stdSettings :: Settings where
  "stdSettings =
     \<lparr>multiplierS = 2, strategy = STANDARD, guillotineEnabled = False,
      dynamicDecayEnabled = False, winnersTaxEnabled = False\<rparr>"

section \<open>Reachable states\<close>

text \<open>
  The states the engine can be in between calls.  It starts in \<open>initialEngine\<close>; the
  timer and the deposit button call \<open>processDeposit(amount)\<close>, the reset buttons call
  \<open>handleMidnightReset\<close> and \<open>handleFullReset\<close>; the settings may differ from call to
  call and the amount is any number.  With \<open>direct = True\<close> a caller may also pass
  \<open>isSystem = true\<close> to \<open>processDeposit\<close> itself.  \<open>uuidv4()\<close> returns a string of 36
  characters.
\<close>

inductive reachable :: "bool \<Rightarrow> EngineState \<Rightarrow> bool" for direct :: bool where
  start: "reachable direct initialEngine"
| deposit: "reachable direct state \<Longrightarrow> length (uuid orc) = 36 \<Longrightarrow>
            reachable direct (processDeposit cfg orc amount False state)"
| seed: "reachable direct state \<Longrightarrow> direct \<Longrightarrow>
         reachable direct (processDeposit cfg orc amount True state)"
| settle: "reachable direct state \<Longrightarrow> reachable direct (handleMidnightReset cfg orc state)"
| reset: "reachable direct state \<Longrightarrow> reachable direct (handleFullReset state)"

definition seeds :: "Player list \<Rightarrow> Player list" where
  "seeds q = filter (\<lambda>p. idP p = PROTOCOL_SEED) q"

definition orc0 :: Oracle where
  "orc0 = \<lparr>uuid = ''00000000-0000-4000-8000-000000000000'', nowCreate = 0,
           nowSweep = (\<lambda>i. 5000), rnd = halfRnd\<rparr>"

definition twoDeposits :: EngineState where
  "twoDeposits =
     processDeposit stdSettings orc0 50 False
       (processDeposit stdSettings orc0 100 False initialEngine)"

section \<open>Settlement as the specification words it\<close>

text \<open>
  The principal a player has not yet got back, the collected amounts after a refund that
  pays each player in turn \<open>min(surplus, principal)\<close>, and the tail of the settlement
  (wipe, next round, seed) once the reserve has been set to \<open>r\<close>.
\<close>

definition principal :: "Player \<Rightarrow> real" where
  "principal p = max 0 (deposit p - collected p)"

fun refunded :: "real \<Rightarrow> Player list \<Rightarrow> real list" where
  "refunded surplus [] = []"
| "refunded surplus (p # ps) =
     (collected p + min surplus (principal p)) # refunded (surplus - min surplus (principal p)) ps"

definition surplusOf :: "EngineState \<Rightarrow> real" where
  "surplusOf state = max 0 (protocolBalance state - INITIAL_RESERVE)"

definition settleWith :: "real \<Rightarrow> Settings \<Rightarrow> Oracle \<Rightarrow> EngineState \<Rightarrow> EngineState" where
  "settleWith r cfg orc state =
     (if r \<ge> 100
      then processDeposit cfg orc 100 True
             (state\<lparr>queue := [], currentRound := currentRound state + 1,
                    protocolBalance := r - 100\<rparr>)
      else state\<lparr>queue := [], currentRound := currentRound state + 1, protocolBalance := r\<rparr>)"

text \<open>The reserve after the refund: set in every case, and set only when there is a surplus.\<close>

definition reserveAlwaysSet :: "EngineState \<Rightarrow> real" where
  "reserveAlwaysSet state =
     INITIAL_RESERVE + max 0 (surplusOf state - sum_list (map principal (queue state)))"

definition reserveSetOnSurplus :: "EngineState \<Rightarrow> real" where
  "reserveSetOnSurplus state =
     (if surplusOf state > 0
      then INITIAL_RESERVE + max 0 (surplusOf state - sum_list (map principal (queue state)))
      else protocolBalance state)"

text \<open>
  Scenario 4: a reserve of 1500 and three players with 200, 150 and 100 of principal
  outstanding.  \<open>drained\<close> is the engine after one midnight reset from the start: its
  reserve is 900, below the floor.
\<close>

definition scenario4 :: EngineState where
  "scenario4 =
     initialEngine\<lparr>queue :=
       [mkPlayer ''a'' 300 600 100 False, mkPlayer ''b'' 150 300 0 False,
        mkPlayer ''c'' 400 800 300 False],
       protocolBalance := 1500\<rparr>"

definition drained :: EngineState where
  "drained = handleMidnightReset stdSettings orc0 initialEngine"

section \<open>The winners tax as the specification words it\<close>

text \<open>
  \<open>exits p\<close> is the sweep's test.  \<open>sweepTax\<close> adds up 20% of the profit of every exiting
  player that is taxed when the exemption is the system flag of the deposit being
  processed; \<open>sweepTaxById\<close> does the same when the exemption is the player's own id
  being \<open>PROTOCOL_SEED\<close>.  Positions count from \<open>i\<close>.
\<close>

definition exits :: "Player \<Rightarrow> bool" where
  "exits p = (collected p \<ge> target p - 1 / 100)"

fun sweepTax :: "Settings \<Rightarrow> (nat \<Rightarrow> int) \<Rightarrow> bool \<Rightarrow> nat \<Rightarrow> Player list \<Rightarrow> real" where
  "sweepTax cfg now isSystem i [] = 0"
| "sweepTax cfg now isSystem i (p # ps) =
     (if exits p \<and> winnersTaxEnabled cfg \<and> \<not> isSystem \<and> now i - timestamp p < 10000 \<and>
         target p - deposit p > 0
      then (target p - deposit p) * (20 / 100) else 0)
     + sweepTax cfg now isSystem (i + 1) ps"

fun sweepTaxById :: "Settings \<Rightarrow> (nat \<Rightarrow> int) \<Rightarrow> nat \<Rightarrow> Player list \<Rightarrow> real" where
  "sweepTaxById cfg now i [] = 0"
| "sweepTaxById cfg now i (p # ps) =
     (if exits p \<and> winnersTaxEnabled cfg \<and> idP p \<noteq> PROTOCOL_SEED \<and>
         now i - timestamp p < 10000 \<and> target p - deposit p > 0
      then (target p - deposit p) * (20 / 100) else 0)
     + sweepTaxById cfg now (i + 1) ps"

definition taxSettings :: Settings where
  "taxSettings = stdSettings\<lparr>winnersTaxEnabled := True\<rparr>"

section \<open>Conservation as the specification words it\<close>

text \<open>What a player still needs, never negative, and the collected total of a queue.\<close>

definition need :: "Player \<Rightarrow> real" where
  "need p = max 0 (target p - collected p)"

definition totalCollected :: "Player list \<Rightarrow> real" where
  "totalCollected q = sum_list (map collected q)"

definition oneWaiting :: EngineState where
  "oneWaiting = processDeposit stdSettings orc0 100 False initialEngine"

section \<open>Evaluation\<close>

lemmas deposit_defs =
  processDeposit_def takeFee_def paidQueue_def newPlayer_def actualFee_def netAmountOf_def
  yieldPoolOf_def headPoolOf_def effectiveMultiplier_def distributeYield_def exitPlayer_def
  pushChart_def FEE_PERCENT_def INITIAL_RESERVE_def GUILLOTINE_INTERVAL_def Let_def

section \<open>Scenario 1\<close>

text \<open>
  C1.  With fee rate 0.01, multiplier 2, the STANDARD strategy and every toggle off, a
  deposit of 100 into an empty queue takes the fee 1, leaves the net amount 99 and a queue
  of one player with deposit 100, target 200 and collected 0.  A deposit of 250 after it
  takes the fee 2.5, leaves the net amount 247.5, pays 200 to the first player and keeps
  47.5 that no player receives and the reserve does not get (the reserve grows by the
  two fees only); the first player leaves the queue, the exit counter grows by one and
  the paid-out sum by 200, and the queue holds one player with deposit 250, target 500
  and collected 0.  From the initial engine the counters are 1 and 200.
\<close>

theorem scenario1_two_deposits:
  fixes s :: EngineState and orc1 orc2 :: Oracle
  defines "p1 \<equiv> \<lparr>idP = uuid orc1, deposit = 100, target = 200, collected = 0,
                  entryRound = currentRound s, timestamp = nowCreate orc1,
                  slashed = Some False, multiplier = None\<rparr>"
      and "p2 \<equiv> \<lparr>idP = uuid orc2, deposit = 250, target = 500, collected = 0,
                  entryRound = currentRound s, timestamp = nowCreate orc2,
                  slashed = Some False, multiplier = None\<rparr>"
      and "s1 \<equiv> processDeposit stdSettings orc1 100 False (s\<lparr>queue := []\<rparr>)"
      and "s2 \<equiv> processDeposit stdSettings orc2 250 False
                   (processDeposit stdSettings orc1 100 False (s\<lparr>queue := []\<rparr>))"
      and "t2 \<equiv> processDeposit stdSettings orc2 250 False
                   (processDeposit stdSettings orc1 100 False initialEngine)"
  shows "actualFee 100 = 1 \<and> netAmountOf 100 False = 99 \<and> queue s1 = [p1] \<and>
         protocolBalance s1 = protocolBalance s + 1 \<and>
         actualFee 250 = 5 / 2 \<and> netAmountOf 250 False = 495 / 2 \<and>
         distributeHead (495 / 2) [p1] = ([p1\<lparr>collected := 200\<rparr>], 95 / 2) \<and>
         queue s2 = [p2] \<and>
         historyCount s2 = historyCount s + 1 \<and> historySum s2 = historySum s + 200 \<and>
         protocolBalance s2 = protocolBalance s + 1 + 5 / 2 \<and>
         historyCount t2 = 1 \<and> historySum t2 = 200"
  unfolding p1_def p2_def s1_def s2_def t2_def
  by (simp add: deposit_defs stdSettings_def initialEngine_def)

section \<open>The Guillotine\<close>

subsection \<open>The victim loop\<close>

lemma randIndex_less: "0 < n \<Longrightarrow> randIndex r n < n"
proof -
  assume n: "0 < n"
  have r: "0 \<le> Rep_random01 r" "Rep_random01 r < 1"
    using Rep_random01 [of r] by auto
  have "Rep_random01 r * real n < real n * 1"
    using r n by (simp add: mult.commute)
  then have "\<lfloor>Rep_random01 r * real n\<rfloor> < int n"
    by (simp add: floor_less_iff)
  moreover have "0 \<le> \<lfloor>Rep_random01 r * real n\<rfloor>"
    using r by simp
  ultimately show ?thesis
    unfolding randIndex_def by linarith
qed

lemma set_splice1: "k < length xs \<Longrightarrow> distinct xs \<Longrightarrow> set (splice1 k xs) = set xs - {xs ! k}"
proof -
  assume k: "k < length xs" and d: "distinct xs"
  have xs: "xs = take k xs @ (xs ! k) # drop (Suc k) xs"
    using k by (simp add: id_take_nth_drop)
  have "distinct (take k xs @ (xs ! k) # drop (Suc k) xs)"
    using d xs by simp
  then have "xs ! k \<notin> set (take k xs)" "xs ! k \<notin> set (drop (Suc k) xs)"
    by auto
  moreover have "set xs = set (take k xs) \<union> {xs ! k} \<union> set (drop (Suc k) xs)"
    by (subst xs) auto
  ultimately show ?thesis
    unfolding splice1_def by auto
qed

lemma distinct_splice1: "distinct xs \<Longrightarrow> distinct (splice1 k xs)"
  unfolding splice1_def
  by (simp add: set_take_disj_set_drop_if_distinct)

lemma length_splice1: "k < length xs \<Longrightarrow> length (splice1 k xs) = length xs - 1"
  unfolding splice1_def by simp

lemma pickVictims_distinct:
  "distinct pool \<Longrightarrow> distinct victims \<Longrightarrow> set pool \<inter> set victims = {} \<Longrightarrow>
   distinct (pickVictims r i pool victims)"
proof (induction r i pool victims rule: pickVictims.induct)
  case (1 r i pool victims)
  show ?case
  proof (cases "i < 10 \<and> length pool \<noteq> 0")
    case False
    then show ?thesis using "1.prems" by (auto simp: pickVictims.simps [of r i])
  next
    case True
    let ?k = "randIndex (r i) (length pool)"
    have k: "?k < length pool" using True by (simp add: randIndex_less)
    have sp: "set (splice1 ?k pool) = set pool - {pool ! ?k}"
      using k "1.prems" by (simp add: set_splice1)
    have "distinct (pickVictims r (i + 1) (splice1 ?k pool) (victims @ [pool ! ?k]))"
    proof (rule "1.IH")
      show "i < 10" using True by simp
      show "length pool \<noteq> 0" using True by simp
      show "distinct (splice1 ?k pool)" using "1.prems" by (simp add: distinct_splice1)
      show "distinct (victims @ [pool ! ?k])"
        using "1.prems" nth_mem [OF k] by auto
      show "set (splice1 ?k pool) \<inter> set (victims @ [pool ! ?k]) = {}"
        using sp "1.prems" by auto
    qed
    then show ?thesis using True by (simp add: pickVictims.simps [of r i])
  qed
qed

lemma pickVictims_subset:
  "set (pickVictims r i pool victims) \<subseteq> set pool \<union> set victims"
proof (induction r i pool victims rule: pickVictims.induct)
  case (1 r i pool victims)
  show ?case
  proof (cases "i < 10 \<and> length pool \<noteq> 0")
    case False
    then show ?thesis by (auto simp: pickVictims.simps [of r i])
  next
    case True
    let ?k = "randIndex (r i) (length pool)"
    have k: "?k < length pool" using True by (simp add: randIndex_less)
    have "set (splice1 ?k pool) \<subseteq> set pool"
      unfolding splice1_def using set_take_subset [of ?k pool] set_drop_subset [of "Suc ?k" pool]
      by auto
    moreover have "pool ! ?k \<in> set pool" using k by simp
    moreover have "set (pickVictims r (i + 1) (splice1 ?k pool) (victims @ [pool ! ?k]))
        \<subseteq> set (splice1 ?k pool) \<union> set (victims @ [pool ! ?k])"
      using True by (intro "1.IH") auto
    ultimately show ?thesis using True by (auto simp: pickVictims.simps [of r i])
  qed
qed

lemma pickVictims_length:
  "length (pickVictims r i pool victims) = length victims + min (10 - i) (length pool)"
proof (induction r i pool victims rule: pickVictims.induct)
  case (1 r i pool victims)
  show ?case
  proof (cases "i < 10 \<and> length pool \<noteq> 0")
    case False
    then show ?thesis by (auto simp: pickVictims.simps [of r i])
  next
    case True
    let ?k = "randIndex (r i) (length pool)"
    have k: "?k < length pool" using True by (simp add: randIndex_less)
    have "length (pickVictims r (i + 1) (splice1 ?k pool) (victims @ [pool ! ?k]))
        = length (victims @ [pool ! ?k]) + min (10 - (i + 1)) (length (splice1 ?k pool))"
      using True by (intro "1.IH") auto
    moreover have "Suc (min (9 - i) (length pool - Suc 0)) = min (10 - i) (length pool)"
      using True by (cases pool) auto
    ultimately show ?thesis
      using True k by (simp add: pickVictims.simps [of r i] length_splice1)
  qed
qed

subsection \<open>Candidates and the slash\<close>

lemma insort_key_ranked:
  fixes f :: "nat \<Rightarrow> real"
  assumes "sorted_wrt (\<lambda>i j. f i < f j \<or> (f i = f j \<and> i < j)) ys"
    and "\<forall>y\<in>set ys. x < y"
  shows "sorted_wrt (\<lambda>i j. f i < f j \<or> (f i = f j \<and> i < j)) (insort_key f x ys)"
  using assms
proof (induction ys)
  case Nil
  then show ?case by simp
next
  case (Cons y ys)
  show ?case
  proof (cases "f x \<le> f y")
    case True
    have "\<forall>z\<in>set ys. f y \<le> f z" using Cons.prems(1) by auto
    then have "\<forall>z\<in>set (y # ys). f x < f z \<or> (f x = f z \<and> x < z)"
      using True Cons.prems(2) by fastforce
    then show ?thesis using True Cons.prems(1) by simp
  next
    case False
    have "sorted_wrt (\<lambda>i j. f i < f j \<or> (f i = f j \<and> i < j)) (insort_key f x ys)"
      using Cons by simp
    moreover have "\<forall>z\<in>set (insort_key f x ys). f y < f z \<or> (f y = f z \<and> y < z)"
      using False Cons.prems(1) by (auto simp: set_insort_key)
    ultimately show ?thesis using False by simp
  qed
qed

lemma sort_key_ranked:
  fixes f :: "nat \<Rightarrow> real"
  assumes "sorted_wrt (<) xs"
  shows "sorted_wrt (\<lambda>i j. f i < f j \<or> (f i = f j \<and> i < j)) (sort_key f xs)"
  using assms
proof (induction xs)
  case Nil
  then show ?case by simp
next
  case (Cons x xs)
  have "\<forall>y\<in>set (sort_key f xs). x < y" using Cons.prems by simp
  moreover have "sorted_wrt (\<lambda>i j. f i < f j \<or> (f i = f j \<and> i < j)) (sort_key f xs)"
    using Cons by simp
  ultimately show ?case by (simp add: insort_key_ranked)
qed

lemma ranked_unslashed:
  "sorted_wrt (outranks q) (sort_key (\<lambda>i. - liability (q ! i)) (unslashed q))"
proof -
  have "sorted_wrt (<) (unslashed q)"
    unfolding unslashed_def by (rule sorted_wrt_filter) simp
  from sort_key_ranked [OF this, of "\<lambda>i. - liability (q ! i)"]
  have "sorted_wrt (\<lambda>i j. - liability (q ! i) < - liability (q ! j) \<or>
          (- liability (q ! i) = - liability (q ! j) \<and> i < j))
        (sort_key (\<lambda>i. - liability (q ! i)) (unslashed q))" .
  moreover have "(\<lambda>i j. - liability (q ! i) < - liability (q ! j) \<or>
          (- liability (q ! i) = - liability (q ! j) \<and> i < j)) = outranks q"
    unfolding outranks_def by (intro ext) auto
  ultimately show ?thesis by simp
qed

lemma candidates_alt:
  "candidates q = take 30 (sort_key (\<lambda>i. - liability (q ! i)) (unslashed q))"
  unfolding candidates_def unslashed_def ..

lemma candidates_ranked: "sorted_wrt (outranks q) (candidates q)"
proof -
  let ?xs = "sort_key (\<lambda>i. - liability (q ! i)) (unslashed q)"
  have "sorted_wrt (outranks q) (take 30 ?xs @ drop 30 ?xs)"
    using ranked_unslashed [of q] by simp
  then show ?thesis
    unfolding candidates_alt sorted_wrt_append by blast
qed

lemma candidates_top:
  assumes "i \<in> set (candidates q)" and "j \<in> set (unslashed q)" and "j \<notin> set (candidates q)"
  shows "outranks q i j"
proof -
  let ?xs = "sort_key (\<lambda>i. - liability (q ! i)) (unslashed q)"
  have s: "sorted_wrt (outranks q) (take 30 ?xs @ drop 30 ?xs)"
    using ranked_unslashed [of q] by simp
  have "set ?xs = set (take 30 ?xs) \<union> set (drop 30 ?xs)"
    by (metis append_take_drop_id set_append)
  then have "j \<in> set (drop 30 ?xs)"
    using assms(2,3) unfolding candidates_alt by auto
  then show ?thesis
    using s assms(1) unfolding candidates_alt sorted_wrt_append by blast
qed

lemma candidates_distinct: "distinct (candidates q)"
  unfolding candidates_alt unslashed_def by simp

lemma candidates_subset: "set (candidates q) \<subseteq> set (unslashed q)"
  unfolding candidates_alt using set_take_subset [of 30 "sort_key (\<lambda>i. - liability (q ! i)) (unslashed q)"]
  by simp

lemma candidates_length: "length (candidates q) = min 30 (length (unslashed q))"
  unfolding candidates_alt by simp

lemma set_unslashed: "set (unslashed q) = {i. i < length q \<and> \<not> truthy (slashed (q ! i))}"
  unfolding unslashed_def by auto

lemma length_slash: "length (slash q v) = length q"
  by (simp add: slash_def)

lemma nth_slash_other: "i \<noteq> v \<Longrightarrow> slash q v ! i = q ! i"
  by (simp add: slash_def)

lemma length_foldl_slash: "length (foldl slash q vs) = length q"
  by (induction vs arbitrary: q) (simp_all add: length_slash)

lemma foldl_slash_other: "i \<notin> set vs \<Longrightarrow> foldl slash q vs ! i = q ! i"
  by (induction vs arbitrary: q) (simp_all add: nth_slash_other)

lemma foldl_slash_victim:
  "distinct vs \<Longrightarrow> i \<in> set vs \<Longrightarrow> i < length q \<Longrightarrow> foldl slash q vs ! i = haircut (q ! i)"
proof (induction vs arbitrary: q)
  case Nil
  then show ?case by simp
next
  case (Cons v vs)
  show ?case
  proof (cases "i = v")
    case True
    then have "i \<notin> set vs" using Cons.prems(1) by simp
    then have "foldl slash (slash q v) vs ! i = slash q v ! i" by (rule foldl_slash_other)
    moreover have "slash q v ! i = haircut (q ! i)"
      using True Cons.prems(3) by (simp add: slash_def)
    ultimately show ?thesis by simp
  next
    case False
    have "length (slash q v) = length q" by (simp add: slash_def)
    then have "foldl slash (slash q v) vs ! i = haircut (slash q v ! i)"
      using False Cons by simp
    moreover have "slash q v ! i = q ! i"
      using False by (simp add: slash_def)
    ultimately show ?thesis by simp
  qed
qed

lemma foldl_slash_frame:
  assumes "i < length q"
  shows "idP (foldl slash q vs ! i) = idP (q ! i) \<and>
         deposit (foldl slash q vs ! i) = deposit (q ! i) \<and>
         collected (foldl slash q vs ! i) = collected (q ! i) \<and>
         entryRound (foldl slash q vs ! i) = entryRound (q ! i) \<and>
         timestamp (foldl slash q vs ! i) = timestamp (q ! i) \<and>
         multiplier (foldl slash q vs ! i) = multiplier (q ! i)"
  using assms
proof (induction vs arbitrary: q)
  case Nil
  then show ?case by simp
next
  case (Cons v vs)
  have "i < length (slash q v)" using Cons.prems by (simp add: length_slash)
  moreover have "idP (slash q v ! i) = idP (q ! i) \<and>
         deposit (slash q v ! i) = deposit (q ! i) \<and>
         collected (slash q v ! i) = collected (q ! i) \<and>
         entryRound (slash q v ! i) = entryRound (q ! i) \<and>
         timestamp (slash q v ! i) = timestamp (q ! i) \<and>
         multiplier (slash q v ! i) = multiplier (q ! i)"
    using Cons.prems by (cases "i = v") (simp_all add: slash_def haircut_def)
  ultimately show ?case using Cons.IH [of "slash q v"] by simp
qed

lemma victims_props:
  "distinct (victimsOf r q) \<and> set (victimsOf r q) \<subseteq> set (candidates q) \<and>
   length (victimsOf r q) = min 10 (length (candidates q))"
  unfolding victimsOf_def
  using pickVictims_distinct [of "candidates q" "[]" r 0] pickVictims_subset [of r 0 "candidates q" "[]"]
    pickVictims_length [of r 0 "candidates q" "[]"]
  by (simp add: candidates_distinct)

lemma guillotine_queue:
  "queue (triggerGuillotine r state) =
     (if length (queue state) < 5 then queue state
      else foldl slash (queue state) (victimsOf r (queue state)))"
proof -
  have "candidates (queue state) = [] \<Longrightarrow> victimsOf r (queue state) = []"
    unfolding victimsOf_def by (simp add: pickVictims.simps)
  then show ?thesis
    unfolding triggerGuillotine_def by auto
qed

subsection \<open>The crowd of five\<close>

lemma Rep_halfRnd: "Rep_random01 (halfRnd i) = 1 / 2"
  unfolding halfRnd_def by (simp add: Abs_random01_inverse)

lemma crowd5_candidates: "candidates (queue crowd5) = [4, 3, 2, 0]"
  by (simp add: candidates_def crowd5_def mkPlayer_def initialEngine_def truthy_def liability_def)

lemma crowd5_victims: "victimsOf halfRnd (queue crowd5) = [2, 3, 0, 4]"
  unfolding victimsOf_def crowd5_candidates
  by (simp add: pickVictims.simps randIndex_def Rep_halfRnd splice1_def)

lemma crowd5_result: "map target (queue (triggerGuillotine halfRnd crowd5)) = [160, 320, 480, 640, 800]"
  unfolding triggerGuillotine_def crowd5_victims crowd5_candidates
  by (simp add: crowd5_def mkPlayer_def initialEngine_def slash_def haircut_def)

subsection \<open>The crowd of thirty-one\<close>

lemma crowd31_nth: "i < 31 \<Longrightarrow> crowd31 ! i = mkPlayer ''w'' (real i + 1) (2 * (real i + 1)) 0 False"
  by (simp add: crowd31_def)

lemma crowd31_unslashed: "unslashed crowd31 = [0..<31]"
proof -
  have "length crowd31 = 31" by (simp add: crowd31_def)
  moreover have "\<forall>i\<in>set [0..<31]. \<not> truthy (slashed (crowd31 ! i))"
    by (simp add: crowd31_nth mkPlayer_def truthy_def)
  ultimately show ?thesis
    unfolding unslashed_def by (simp del: upt_rec_numeral)
qed

lemma crowd31_keys:
  "sort_key (\<lambda>i. - liability (crowd31 ! i)) [0..<31]
     = sort_key (\<lambda>i. - (2 * (real i + 1))) [0..<31]"
proof -
  have "sort_key f xs = sort_key g xs" if "\<forall>x\<in>set xs. f x = g x"
    for f g :: "nat \<Rightarrow> real" and xs
    using that
  proof (induction xs)
    case Nil
    then show ?case by simp
  next
    case (Cons x xs)
    then have "insort_key f x ys = insort_key g x ys" if "set ys \<subseteq> set xs" for ys
      using that by (induction ys) auto
    then show ?case using Cons by simp
  qed
  then show ?thesis
    by (simp add: crowd31_nth mkPlayer_def liability_def del: upt_rec_numeral)
qed

lemma crowd31_candidates:
  "candidates crowd31 =
     [30, 29, 28, 27, 26, 25, 24, 23, 22, 21, 20, 19, 18, 17, 16, 15, 14, 13, 12, 11, 10,
      9, 8, 7, 6, 5, 4, 3, 2, 1]"
  unfolding candidates_alt crowd31_unslashed crowd31_keys
  by code_simp

subsection \<open>Selection and slash\<close>

text \<open>
  C6.  With fewer than five players in the queue the Guillotine changes nothing.
  The candidates are players that are not slashed, at most 30 of them, ranked by
  descending remaining liability with ties in queue order, and every unslashed player
  left out ranks behind every candidate.  The victims are distinct candidates, 10 of
  them or all candidates when there are fewer.  With five or more players the queue
  keeps its length, every victim has its current target multiplied by 0.80 once and
  its slashed flag set, and every other player is untouched; nobody's collected amount
  changes.
\<close>

theorem guillotine_selects_and_slashes:
  fixes r :: "nat \<Rightarrow> random01" and state :: EngineState
  defines "q \<equiv> queue state" and "q' \<equiv> queue (triggerGuillotine r state)"
  shows "(length q < 5 \<longrightarrow> triggerGuillotine r state = state) \<and>
         set (unslashed q) = {i. i < length q \<and> \<not> truthy (slashed (q ! i))} \<and>
         length (candidates q) = min 30 (length (unslashed q)) \<and>
         set (candidates q) \<subseteq> set (unslashed q) \<and>
         sorted_wrt (outranks q) (candidates q) \<and>
         (\<forall>i j. i \<in> set (candidates q) \<and> j \<in> set (unslashed q) \<and> j \<notin> set (candidates q)
             \<longrightarrow> outranks q i j) \<and>
         length (victimsOf r q) = min 10 (length (candidates q)) \<and>
         distinct (victimsOf r q) \<and>
         set (victimsOf r q) \<subseteq> set (candidates q) \<and>
         (5 \<le> length q \<longrightarrow>
            length q' = length q \<and>
            (\<forall>i<length q.
               q' ! i =
                 (if i \<in> set (victimsOf r q)
                  then (q ! i)\<lparr>target := target (q ! i) * (80 / 100), slashed := Some True\<rparr>
                  else q ! i))) \<and>
         (\<forall>i<length q. collected (q' ! i) = collected (q ! i))"
proof -
  have a: "length q < 5 \<longrightarrow> triggerGuillotine r state = state"
    unfolding q_def triggerGuillotine_def by simp
  have b: "\<forall>i j. i \<in> set (candidates q) \<and> j \<in> set (unslashed q) \<and> j \<notin> set (candidates q)
             \<longrightarrow> outranks q i j"
    using candidates_top by blast
  have q': "q' = (if length q < 5 then q else foldl slash q (victimsOf r q))"
    unfolding q_def q'_def by (rule guillotine_queue)
  have c: "5 \<le> length q \<longrightarrow>
            length q' = length q \<and>
            (\<forall>i<length q.
               q' ! i =
                 (if i \<in> set (victimsOf r q)
                  then (q ! i)\<lparr>target := target (q ! i) * (80 / 100), slashed := Some True\<rparr>
                  else q ! i))"
    using victims_props [of r q]
    by (auto simp: q' length_foldl_slash foldl_slash_other foldl_slash_victim haircut_def)
  have d: "\<forall>i<length q. collected (q' ! i) = collected (q ! i)"
    using foldl_slash_frame [of _ q "victimsOf r q"] by (simp add: q')
  show ?thesis
    using a b c d victims_props [of r q] candidates_length [of q] candidates_subset [of q]
      candidates_ranked [of q] set_unslashed [of q]
    by blast
qed

theorem guillotine_selects_and_slashes_witness:
  "5 \<le> length (queue crowd5) \<and>
   candidates (queue crowd5) = [4, 3, 2, 0] \<and>
   outranks (queue crowd5) 4 3 \<and>
   victimsOf halfRnd (queue crowd5) = [2, 3, 0, 4] \<and>
   length (queue (triggerGuillotine halfRnd crowd5)) = 5 \<and>
   queue (triggerGuillotine halfRnd crowd5) ! 2 = mkPlayer ''c'' 300 480 0 True \<and>
   queue (triggerGuillotine halfRnd crowd5) ! 1 = mkPlayer ''b'' 200 320 0 True \<and>
   collected (queue (triggerGuillotine halfRnd crowd5) ! 2) = collected (queue crowd5 ! 2) \<and>
   length (queue initialEngine) < 5 \<and>
   triggerGuillotine halfRnd initialEngine = initialEngine \<and>
   30 \<in> set (candidates crowd31) \<and> 0 \<in> set (unslashed crowd31) \<and>
   0 \<notin> set (candidates crowd31) \<and> outranks crowd31 30 0"
proof -
  note T = guillotine_selects_and_slashes [of crowd5 halfRnd]
  have len: "length (queue crowd5) = 5"
    by (simp add: crowd5_def)
  have q2: "queue crowd5 ! 2 = mkPlayer ''c'' 300 600 0 False"
    and q1: "queue crowd5 ! 1 = mkPlayer ''b'' 200 320 0 True"
    by (simp_all add: crowd5_def)
  from T have "sorted_wrt (outranks (queue crowd5)) (candidates (queue crowd5))"
    by blast
  then have rank: "outranks (queue crowd5) 4 3"
    unfolding crowd5_candidates by simp
  from T len have len': "length (queue (triggerGuillotine halfRnd crowd5)) = 5"
    by simp
  from T len have nth: "\<forall>i<5. queue (triggerGuillotine halfRnd crowd5) ! i =
      (if i \<in> set (victimsOf halfRnd (queue crowd5))
       then (queue crowd5 ! i)\<lparr>target := target (queue crowd5 ! i) * (80 / 100),
              slashed := Some True\<rparr>
       else queue crowd5 ! i)"
    by simp
  have n2: "queue (triggerGuillotine halfRnd crowd5) ! 2 = mkPlayer ''c'' 300 480 0 True"
    using nth [rule_format, of 2] unfolding crowd5_victims q2 by (simp add: mkPlayer_def)
  have n1: "queue (triggerGuillotine halfRnd crowd5) ! 1 = mkPlayer ''b'' 200 320 0 True"
    using nth [rule_format, of 1] unfolding crowd5_victims q1 by simp
  from T len have "\<forall>i<5. collected (queue (triggerGuillotine halfRnd crowd5) ! i)
      = collected (queue crowd5 ! i)"
    by simp
  then have c2: "collected (queue (triggerGuillotine halfRnd crowd5) ! 2)
      = collected (queue crowd5 ! 2)"
    by simp
  have small: "length (queue initialEngine) < 5"
    by (simp add: initialEngine_def)
  then have noop: "triggerGuillotine halfRnd initialEngine = initialEngine"
    using guillotine_selects_and_slashes [of initialEngine halfRnd] by blast
  have q31: "queue (initialEngine\<lparr>queue := crowd31\<rparr>) = crowd31"
    by simp
  have in31: "30 \<in> set (candidates crowd31)" "0 \<notin> set (candidates crowd31)"
    unfolding crowd31_candidates by simp_all
  have un31: "0 \<in> set (unslashed crowd31)"
    unfolding crowd31_unslashed by simp
  have top: "outranks crowd31 30 0"
    using guillotine_selects_and_slashes [of "initialEngine\<lparr>queue := crowd31\<rparr>" halfRnd]
      in31 un31
    unfolding q31 by blast
  show ?thesis
    using len rank len' n2 n1 c2 small noop in31 un31 top crowd5_candidates crowd5_victims
    by simp
qed

subsection \<open>Frame\<close>

text \<open>
  C9.  The Guillotine leaves every ledger field (history counters, total deposited,
  protocol balance, round, chart data, tick counter) as it was, keeps the queue's length
  and the order of its members, keeps every player's id, deposit, collected amount,
  entry round and timestamp, and leaves every player that is not a victim unchanged.
\<close>

theorem guillotine_frame:
  fixes r :: "nat \<Rightarrow> random01" and state :: EngineState
  defines "state' \<equiv> triggerGuillotine r state"
  shows "historyCount state' = historyCount state \<and>
         historySum state' = historySum state \<and>
         totalDeposited state' = totalDeposited state \<and>
         protocolBalance state' = protocolBalance state \<and>
         currentRound state' = currentRound state \<and>
         chartData state' = chartData state \<and>
         tickCount state' = tickCount state \<and>
         length (queue state') = length (queue state) \<and>
         map idP (queue state') = map idP (queue state) \<and>
         map deposit (queue state') = map deposit (queue state) \<and>
         map collected (queue state') = map collected (queue state) \<and>
         map entryRound (queue state') = map entryRound (queue state) \<and>
         map timestamp (queue state') = map timestamp (queue state) \<and>
         (\<forall>i<length (queue state).
            i \<notin> set (victimsOf r (queue state)) \<longrightarrow> queue state' ! i = queue state ! i) \<and>
         (length (queue state) < 5 \<longrightarrow> queue state' = queue state)"
proof -
  let ?q = "queue state" and ?vs = "victimsOf r (queue state)"
  have ledger: "historyCount state' = historyCount state \<and>
         historySum state' = historySum state \<and>
         totalDeposited state' = totalDeposited state \<and>
         protocolBalance state' = protocolBalance state \<and>
         currentRound state' = currentRound state \<and>
         chartData state' = chartData state \<and>
         tickCount state' = tickCount state"
    unfolding state'_def triggerGuillotine_def by simp
  have q': "queue state' = (if length ?q < 5 then ?q else foldl slash ?q ?vs)"
    unfolding state'_def by (rule guillotine_queue)
  have len: "length (queue state') = length ?q"
    by (simp add: q' length_foldl_slash)
  have fr: "\<And>i. i < length ?q \<Longrightarrow>
         idP (queue state' ! i) = idP (?q ! i) \<and>
         deposit (queue state' ! i) = deposit (?q ! i) \<and>
         collected (queue state' ! i) = collected (?q ! i) \<and>
         entryRound (queue state' ! i) = entryRound (?q ! i) \<and>
         timestamp (queue state' ! i) = timestamp (?q ! i)"
    using foldl_slash_frame [of _ ?q ?vs] by (simp add: q')
  have maps: "map idP (queue state') = map idP ?q"
    "map deposit (queue state') = map deposit ?q"
    "map collected (queue state') = map collected ?q"
    "map entryRound (queue state') = map entryRound ?q"
    "map timestamp (queue state') = map timestamp ?q"
    using len fr by (simp_all add: list_eq_iff_nth_eq)
  have other: "\<forall>i<length ?q. i \<notin> set ?vs \<longrightarrow> queue state' ! i = ?q ! i"
    by (simp add: q' foldl_slash_other)
  have small: "length ?q < 5 \<longrightarrow> queue state' = ?q"
    by (simp add: q')
  show ?thesis
    using ledger len maps other small by blast
qed

theorem guillotine_frame_witness:
  "1 < length (queue crowd5) \<and> 1 \<notin> set (victimsOf halfRnd (queue crowd5)) \<and>
   queue (triggerGuillotine halfRnd crowd5) ! 1 = queue crowd5 ! 1 \<and>
   map idP (queue (triggerGuillotine halfRnd crowd5)) = [''a'', ''b'', ''c'', ''d'', ''e''] \<and>
   protocolBalance (triggerGuillotine halfRnd crowd5) = 1000 \<and>
   length (queue initialEngine) < 5 \<and>
   queue (triggerGuillotine halfRnd initialEngine) = queue initialEngine"
proof -
  have len: "length (queue crowd5) = 5"
    by (simp add: crowd5_def)
  have ids: "map idP (queue crowd5) = [''a'', ''b'', ''c'', ''d'', ''e'']"
    by (simp add: crowd5_def mkPlayer_def)
  have bal: "protocolBalance crowd5 = 1000"
    by (simp add: crowd5_def initialEngine_def INITIAL_RESERVE_def)
  have small: "length (queue initialEngine) < 5"
    by (simp add: initialEngine_def)
  then have noop: "queue (triggerGuillotine halfRnd initialEngine) = queue initialEngine"
    using guillotine_frame [of halfRnd initialEngine] by blast
  show ?thesis
    using guillotine_frame [of halfRnd crowd5] small noop
    unfolding crowd5_victims len ids bal
    by simp
qed

section \<open>Invariants of the queue\<close>

subsection \<open>What one deposit does to the queue\<close>

lemma queue_pushChart: "queue (pushChart state) = queue state"
  by (simp add: pushChart_def Let_def)

lemma cleanupSweep_queue:
  "fst (cleanupSweep cfg now isSystem i ps state) =
     filter (\<lambda>p. \<not> target p - 1 / 100 \<le> collected p) ps"
proof (induction ps arbitrary: i state)
  case Nil
  then show ?case by simp
next
  case (Cons p ps)
  show ?case
  proof (cases "target p - 1 / 100 \<le> collected p")
    case True
    then show ?thesis using Cons.IH by simp
  next
    case False
    obtain nq st where sw: "cleanupSweep cfg now isSystem (i + 1) ps state = (nq, st)"
      by (cases "cleanupSweep cfg now isSystem (i + 1) ps state")
    then have "nq = filter (\<lambda>p. \<not> target p - 1 / 100 \<le> collected p) ps"
      using Cons.IH [of "i + 1" state] by simp
    then show ?thesis using False sw by simp
  qed
qed

lemma processDeposit_queue:
  "queue (processDeposit cfg orc amount isSystem state) =
     filter (\<lambda>p. \<not> target p - 1 / 100 \<le> collected p)
       (paidQueue cfg orc amount isSystem (takeFee cfg orc amount isSystem state))"
proof -
  let ?s4 = "takeFee cfg orc amount isSystem state"
  let ?s7 = "?s4\<lparr>queue := paidQueue cfg orc amount isSystem ?s4\<rparr>"
  obtain nq s8 where sw: "cleanupSweep cfg (nowSweep orc) isSystem 0 (queue ?s7) ?s7 = (nq, s8)"
    by (cases "cleanupSweep cfg (nowSweep orc) isSystem 0 (queue ?s7) ?s7")
  have "nq = filter (\<lambda>p. \<not> target p - 1 / 100 \<le> collected p) (queue ?s7)"
    using cleanupSweep_queue [of cfg "nowSweep orc" isSystem 0 "queue ?s7" ?s7] sw by simp
  then show ?thesis
    unfolding processDeposit_def Let_def sw by (simp add: queue_pushChart)
qed

lemma queue_takeFee:
  "queue (takeFee cfg orc amount isSystem state) =
     (if guillotineEnabled cfg \<and> (tickCount state + 1) mod GUILLOTINE_INTERVAL = 0
      then queue (triggerGuillotine (rnd orc) (state\<lparr>tickCount := tickCount state + 1\<rparr>))
      else queue state)"
  by (simp add: takeFee_def Let_def)

lemma guillotine_collected:
  "map collected (queue (triggerGuillotine r state)) = map collected (queue state)"
  using foldl_slash_frame [of _ "queue state" "victimsOf r (queue state)"]
  by (simp add: guillotine_queue list_eq_iff_nth_eq length_foldl_slash)

lemma guillotine_ids:
  "map idP (queue (triggerGuillotine r state)) = map idP (queue state)"
  using foldl_slash_frame [of _ "queue state" "victimsOf r (queue state)"]
  by (simp add: guillotine_queue list_eq_iff_nth_eq length_foldl_slash)

lemma takeFee_collected:
  "map collected (queue (takeFee cfg orc amount isSystem state)) = map collected (queue state)"
  using guillotine_collected [of "rnd orc" "state\<lparr>tickCount := tickCount state + 1\<rparr>"]
  by (simp add: queue_takeFee)

lemma takeFee_ids:
  "map idP (queue (takeFee cfg orc amount isSystem state)) = map idP (queue state)"
  using guillotine_ids [of "rnd orc" "state\<lparr>tickCount := tickCount state + 1\<rparr>"]
  by (simp add: queue_takeFee)

lemma distributeYield_nonneg:
  "\<forall>p\<in>set q. 0 \<le> collected p \<Longrightarrow> \<forall>p\<in>set (distributeYield y q). 0 \<le> collected p"
  by (auto simp: distributeYield_def)

lemma distributeHead_nonneg:
  "\<forall>p\<in>set q. 0 \<le> collected p \<Longrightarrow> \<forall>p\<in>set (fst (distributeHead rem q)). 0 \<le> collected p"
proof (induction q arbitrary: rem)
  case Nil
  then show ?case by simp
next
  case (Cons p ps)
  have t: "\<forall>x\<in>set (fst (distributeHead r ps)). 0 \<le> collected x" for r
    using Cons by simp
  have h: "0 \<le> collected p" using Cons.prems by simp
  show ?case
  proof (cases "rem \<le> 0")
    case True
    then show ?thesis using Cons.prems by simp
  next
    case False
    then show ?thesis
      using h t [of rem] t [of "rem - (target p - collected p)"] t [of 0]
      by (auto split: prod.splits)
  qed
qed

lemma nonneg_by_map:
  "map collected q' = map collected q \<Longrightarrow> \<forall>p\<in>set q. 0 \<le> collected p \<Longrightarrow>
   \<forall>p\<in>set q'. (0::real) \<le> collected p"
proof -
  assume m: "map collected q' = map collected q" and n: "\<forall>p\<in>set q. 0 \<le> collected p"
  have "\<forall>x\<in>set (map collected q). 0 \<le> x" using n by simp
  then have "\<forall>x\<in>set (map collected q'). 0 \<le> x" using m by simp
  then show ?thesis by simp
qed

lemma paidQueue_nonneg:
  assumes "\<forall>p\<in>set (queue state). 0 \<le> collected p"
  shows "\<forall>p\<in>set (paidQueue cfg orc amount isSystem state). 0 \<le> collected p"
proof -
  have "\<forall>p\<in>set (fst (distributeHead (headPoolOf cfg (netAmountOf amount isSystem))
            (distributeYield (yieldPoolOf cfg (netAmountOf amount isSystem)) (queue state)))).
          0 \<le> collected p"
    using assms by (intro distributeHead_nonneg distributeYield_nonneg)
  then show ?thesis
    unfolding paidQueue_def by (simp add: newPlayer_def)
qed

lemma processDeposit_ok:
  assumes "\<forall>p\<in>set (queue state). 0 \<le> collected p"
  shows "\<forall>p\<in>set (queue (processDeposit cfg orc amount isSystem state)).
           0 \<le> collected p \<and> collected p < target p - 1 / 100"
proof -
  have "\<forall>p\<in>set (queue (takeFee cfg orc amount isSystem state)). 0 \<le> collected p"
    using assms takeFee_collected by (rule nonneg_by_map [rotated])
  then have "\<forall>p\<in>set (paidQueue cfg orc amount isSystem (takeFee cfg orc amount isSystem state)).
      0 \<le> collected p"
    by (rule paidQueue_nonneg)
  then show ?thesis
    unfolding processDeposit_queue by auto
qed

lemma handleMidnightReset_ok:
  "\<forall>p\<in>set (queue (handleMidnightReset cfg orc state)).
           0 \<le> collected p \<and> collected p < target p - 1 / 100"
proof -
  have "\<forall>p\<in>set (queue (processDeposit cfg orc 100 True s)).
           0 \<le> collected p \<and> collected p < target p - 1 / 100" if "queue s = []" for s
    using that by (intro processDeposit_ok) simp
  from this [of "refundPhase state\<lparr>queue := [],
      currentRound := currentRound (refundPhase state\<lparr>queue := []\<rparr>) + 1,
      protocolBalance := protocolBalance (refundPhase state) - 100\<rparr>"]
  show ?thesis
    unfolding handleMidnightReset_def Let_def by simp
qed

lemma reachable_ok:
  "reachable direct state \<Longrightarrow>
   \<forall>p\<in>set (queue state). 0 \<le> collected p \<and> collected p < target p - 1 / 100"
proof (induction rule: reachable.induct)
  case start
  then show ?case by (simp add: initialEngine_def)
next
  case (deposit state orc cfg amount)
  then show ?case by (intro processDeposit_ok) simp
next
  case (seed state cfg orc amount)
  then show ?case by (intro processDeposit_ok) simp
next
  case (settle state cfg orc)
  show ?case by (rule handleMidnightReset_ok)
next
  case (reset state)
  then show ?case by (simp add: handleFullReset_def initialEngine_def)
qed

lemma uuid_orc0: "length (uuid orc0) = 36"
  by (simp add: orc0_def)

lemma twoDeposits_reachable: "reachable direct twoDeposits"
  unfolding twoDeposits_def
  by (intro reachable.deposit reachable.start uuid_orc0)

lemma twoDeposits_queue:
  "queue twoDeposits =
     [\<lparr>idP = uuid orc0, deposit = 100, target = 200, collected = 49, entryRound = 1,
       timestamp = 0, slashed = Some False, multiplier = None\<rparr>,
      \<lparr>idP = uuid orc0, deposit = 50, target = 100, collected = 0, entryRound = 1,
       timestamp = 0, slashed = Some False, multiplier = None\<rparr>]"
  unfolding twoDeposits_def
  by (simp add: deposit_defs stdSettings_def initialEngine_def orc0_def)

text \<open>
  C2.  In every state the engine can reach by deposits (with either value of the system
  flag, any amount, any settings), midnight resets and full resets, every player in the
  queue has \<open>0 \<le> collected\<close> and \<open>collected \<le> target + 0.01\<close>; in fact the cleanup sweep
  leaves only players with \<open>collected < target - 0.01\<close>, whatever the yield drip credited
  and whatever the Guillotine cut.
\<close>

theorem queue_collected_bounds:
  "reachable direct state \<Longrightarrow>
   \<forall>p\<in>set (queue state).
     0 \<le> collected p \<and> collected p < target p - 1 / 100 \<and> collected p \<le> target p + 1 / 100"
  using reachable_ok [of direct state] by fastforce

theorem queue_collected_bounds_witness:
  "reachable True twoDeposits \<and> length (queue twoDeposits) = 2 \<and>
   collected (queue twoDeposits ! 0) = 49 \<and> target (queue twoDeposits ! 0) = 200 \<and>
   0 \<le> collected (queue twoDeposits ! 0) \<and>
   collected (queue twoDeposits ! 0) \<le> target (queue twoDeposits ! 0) + 1 / 100"
  using queue_collected_bounds [OF twoDeposits_reachable [of True]]
  by (simp add: twoDeposits_reachable twoDeposits_queue)

subsection \<open>Protocol seeds\<close>

lemma length_seeds_ids:
  "length (seeds q) = length (filter (\<lambda>x. x = PROTOCOL_SEED) (map idP q))"
  by (simp add: seeds_def filter_map comp_def)

lemma distributeYield_ids: "map idP (distributeYield y q) = map idP q"
  by (simp add: distributeYield_def comp_def)

lemma distributeHead_ids: "map idP (fst (distributeHead rem q)) = map idP q"
  by (induction q arbitrary: rem) (simp_all add: case_prod_beta)

lemma length_seeds_filter: "length (seeds (filter P q)) \<le> length (seeds q)"
  by (induction q) (simp_all add: seeds_def)

lemma processDeposit_seeds:
  "length (seeds (queue (processDeposit cfg orc amount isSystem state)))
     \<le> length (seeds (queue state)) + (if isSystem \<or> uuid orc = PROTOCOL_SEED then 1 else 0)"
proof -
  let ?s4 = "takeFee cfg orc amount isSystem state"
  let ?paid = "fst (distributeHead (headPoolOf cfg (netAmountOf amount isSystem))
            (distributeYield (yieldPoolOf cfg (netAmountOf amount isSystem)) (queue ?s4)))"
  have "map idP ?paid = map idP (queue state)"
    by (simp add: distributeHead_ids distributeYield_ids takeFee_ids)
  then have "length (seeds ?paid) = length (seeds (queue state))"
    by (simp add: length_seeds_ids)
  moreover have "length (seeds [newPlayer cfg orc amount isSystem ?s4])
      \<le> (if isSystem \<or> uuid orc = PROTOCOL_SEED then 1 else 0)"
    by (simp add: seeds_def newPlayer_def)
  moreover have "seeds (paidQueue cfg orc amount isSystem ?s4)
      = seeds ?paid @ seeds [newPlayer cfg orc amount isSystem ?s4]"
    by (simp add: paidQueue_def seeds_def)
  ultimately have "length (seeds (paidQueue cfg orc amount isSystem ?s4))
      \<le> length (seeds (queue state)) + (if isSystem \<or> uuid orc = PROTOCOL_SEED then 1 else 0)"
    by simp
  then show ?thesis
    unfolding processDeposit_queue
    using length_seeds_filter [of _ "paidQueue cfg orc amount isSystem ?s4"] order_trans
    by blast
qed

lemma handleMidnightReset_seeds:
  "length (seeds (queue (handleMidnightReset cfg orc state))) \<le> 1"
proof -
  let ?s = "refundPhase state\<lparr>queue := [],
      currentRound := currentRound (refundPhase state\<lparr>queue := []\<rparr>) + 1,
      protocolBalance := protocolBalance (refundPhase state) - 100\<rparr>"
  have "length (seeds (queue (processDeposit cfg orc 100 True ?s))) \<le> 1"
    using processDeposit_seeds [of cfg orc 100 True ?s] by (simp add: seeds_def)
  then show ?thesis
    unfolding handleMidnightReset_def Let_def by (simp add: seeds_def)
qed

lemma uuid_not_seed: "length (uuid orc) = 36 \<Longrightarrow> uuid orc \<noteq> PROTOCOL_SEED"
  by (auto simp: PROTOCOL_SEED_def)

lemma seeded_queue:
  "queue (handleMidnightReset stdSettings orc0 initialEngine) =
     [\<lparr>idP = PROTOCOL_SEED, deposit = 100, target = 200, collected = 0, entryRound = 2,
       timestamp = 0, slashed = Some False, multiplier = None\<rparr>]"
  by (simp add: handleMidnightReset_def refundPhase_def deposit_defs stdSettings_def
      initialEngine_def orc0_def)

text \<open>
  C10.  In every state reachable by \<open>processDeposit(amount, false)\<close>, midnight resets
  and full resets, at most one player in the queue has the id \<open>PROTOCOL_SEED\<close>.
\<close>

theorem at_most_one_protocol_seed:
  "reachable False state \<Longrightarrow> length (filter (\<lambda>p. idP p = PROTOCOL_SEED) (queue state)) \<le> 1"
proof (induction rule: reachable.induct)
  case start
  then show ?case by (simp add: initialEngine_def)
next
  case (deposit state orc cfg amount)
  then show ?case
    using processDeposit_seeds [of cfg orc amount False state] uuid_not_seed [of orc]
    by (simp add: seeds_def)
next
  case (seed state cfg orc amount)
  then show ?case by simp
next
  case (settle state cfg orc)
  show ?case using handleMidnightReset_seeds [of cfg orc state] by (simp add: seeds_def)
next
  case (reset state)
  then show ?case by (simp add: handleFullReset_def initialEngine_def)
qed

theorem at_most_one_protocol_seed_witness:
  "reachable False (handleMidnightReset stdSettings orc0 initialEngine) \<and>
   length (filter (\<lambda>p. idP p = PROTOCOL_SEED)
     (queue (handleMidnightReset stdSettings orc0 initialEngine))) = 1 \<and>
   length (filter (\<lambda>p. idP p = PROTOCOL_SEED)
     (queue (handleMidnightReset stdSettings orc0 initialEngine))) \<le> 1"
proof -
  have r: "reachable False (handleMidnightReset stdSettings orc0 initialEngine)"
    by (intro reachable.settle reachable.start)
  show ?thesis
    using at_most_one_protocol_seed [OF r] r by (simp add: seeded_queue)
qed

section \<open>Settlement\<close>

lemma refundLoop_spec:
  "0 \<le> surplus \<Longrightarrow>
   map collected (fst (refundLoop surplus q)) = refunded surplus q \<and>
   snd (refundLoop surplus q) = max 0 (surplus - sum_list (map principal q)) \<and>
   length (fst (refundLoop surplus q)) = length q"
proof (induction q arbitrary: surplus)
  case Nil
  then show ?case by simp
next
  case (Cons p ps)
  have pr: "0 \<le> principal p" by (simp add: principal_def)
  have tot: "0 \<le> sum_list (map principal ps)"
    by (rule sum_list_nonneg) (auto simp: principal_def)
  show ?case
  proof (cases "surplus \<le> 0")
    case True
    then have z: "surplus = 0" using Cons.prems by simp
    have "refunded 0 xs = map collected xs" for xs
      by (induction xs) (simp_all add: principal_def)
    then show ?thesis using z pr tot by simp
  next
    case False
    let ?pay = "min surplus (principal p)"
    have ih: "map collected (fst (refundLoop (surplus - ?pay) ps)) = refunded (surplus - ?pay) ps \<and>
      snd (refundLoop (surplus - ?pay) ps) = max 0 (surplus - ?pay - sum_list (map principal ps)) \<and>
      length (fst (refundLoop (surplus - ?pay) ps)) = length ps"
      using Cons.prems by (intro Cons.IH) simp
    show ?thesis
    proof (cases "principal p > 0")
      case True
      then have "max 0 (deposit p - collected p) > 0" by (simp add: principal_def)
      moreover have "max 0 (surplus - ?pay - sum_list (map principal ps))
          = max 0 (surplus - (principal p + sum_list (map principal ps)))"
        using tot by (auto simp: min_def max_def)
      ultimately show ?thesis
        using False ih by (simp add: case_prod_beta principal_def [symmetric])
    next
      case False2: False
      then have p0: "principal p = 0" using pr by simp
      then have "\<not> max 0 (deposit p - collected p) > 0" by (simp add: principal_def)
      then show ?thesis
        using False ih p0 Cons.prems by (simp add: case_prod_beta)
    qed
  qed
qed

lemma refundPhase_reserve: "protocolBalance (refundPhase state) = reserveSetOnSurplus state"
proof (cases "surplusOf state > 0")
  case True
  then have "snd (refundLoop (surplusOf state) (queue state))
      = max 0 (surplusOf state - sum_list (map principal (queue state)))"
    using refundLoop_spec [of "surplusOf state" "queue state"] by simp
  then show ?thesis
    using True by (simp add: refundPhase_def reserveSetOnSurplus_def surplusOf_def Let_def case_prod_beta)
next
  case False
  then show ?thesis
    by (simp add: refundPhase_def reserveSetOnSurplus_def surplusOf_def Let_def)
qed

lemma refundPhase_rest:
  "currentRound (refundPhase state) = currentRound state \<and>
   historyCount (refundPhase state) = historyCount state \<and>
   historySum (refundPhase state) = historySum state \<and>
   totalDeposited (refundPhase state) = totalDeposited state \<and>
   chartData (refundPhase state) = chartData state \<and>
   tickCount (refundPhase state) = tickCount state"
  by (simp add: refundPhase_def Let_def case_prod_beta)

lemma wiped_refundPhase:
  "refundPhase state\<lparr>queue := [], currentRound := c, protocolBalance := b\<rparr>
     = state\<lparr>queue := [], currentRound := c, protocolBalance := b\<rparr>"
  "refundPhase state\<lparr>queue := [], currentRound := c\<rparr>
     = state\<lparr>queue := [], currentRound := c, protocolBalance := reserveSetOnSurplus state\<rparr>"
  using refundPhase_rest [of state] refundPhase_reserve [of state]
  by (intro EngineState.equality; simp)+

lemma drained_eq:
  "drained =
     \<lparr>queue = [\<lparr>idP = PROTOCOL_SEED, deposit = 100, target = 200, collected = 0, entryRound = 2,
        timestamp = 0, slashed = Some False, multiplier = None\<rparr>],
      historyCount = 0, historySum = 0, totalDeposited = 100, protocolBalance = 900,
      currentRound = 2,
      chartData = [\<lparr>roundC = 100, usersTrapped = 1, requiredNewLiquidity = 200\<rparr>],
      tickCount = 1\<rparr>"
  by (simp add: drained_def handleMidnightReset_def refundPhase_def deposit_defs stdSettings_def
      initialEngine_def orc0_def)

text \<open>
  The midnight reset does not set the reserve in every case.  After one reset from the
  start the reserve is 900, below the floor of 1000, and the surplus is 0; the next reset
  leaves the reserve at 900 after the refund phase and at 800 after the seed, where
  setting it to floor plus remaining surplus would give 1000 and then 900.
\<close>

theorem settlement_reserve_counterexample:
  "reachable False drained \<and> protocolBalance drained = 900 \<and> surplusOf drained = 0 \<and>
   protocolBalance (refundPhase drained) = 900 \<and> reserveAlwaysSet drained = 1000 \<and>
   protocolBalance (handleMidnightReset stdSettings orc0 drained) = 800 \<and>
   protocolBalance (settleWith (reserveAlwaysSet drained) stdSettings orc0 drained) = 900 \<and>
   handleMidnightReset stdSettings orc0 drained
     \<noteq> settleWith (reserveAlwaysSet drained) stdSettings orc0 drained"
proof -
  have a: "protocolBalance drained = 900" "surplusOf drained = 0"
    "protocolBalance (refundPhase drained) = 900" "reserveAlwaysSet drained = 1000"
    unfolding drained_eq
    by (simp_all add: surplusOf_def refundPhase_def reserveAlwaysSet_def INITIAL_RESERVE_def
        principal_def)
  have b: "protocolBalance (handleMidnightReset stdSettings orc0 drained) = 800"
    unfolding drained_eq
    by (simp add: handleMidnightReset_def refundPhase_def deposit_defs stdSettings_def orc0_def)
  have c: "protocolBalance (settleWith (reserveAlwaysSet drained) stdSettings orc0 drained) = 900"
    unfolding a(4) unfolding drained_eq
    by (simp add: settleWith_def deposit_defs stdSettings_def orc0_def)
  from b c have "handleMidnightReset stdSettings orc0 drained
     \<noteq> settleWith (reserveAlwaysSet drained) stdSettings orc0 drained"
    by auto
  moreover have "reachable False drained"
    unfolding drained_def by (intro reachable.settle reachable.start)
  ultimately show ?thesis using a b c by simp
qed

text \<open>
  C3, as the code has it.  The surplus is \<open>max(0, protocolBalance - 1000)\<close>.  The refund
  loop pays each player in queue order \<open>min(surplus, max(0, deposit - collected))\<close> and
  leaves \<open>max(0, surplus - total principal)\<close>.  The reserve becomes 1000 plus that
  remainder when the surplus is positive and stays as it is otherwise.  Then the queue is
  cleared, the round is incremented, and with a reserve of at least 100 the engine takes
  100 from it and processes a system deposit of 100.
\<close>

theorem settlement_sets_reserve_only_on_surplus:
  "surplusOf state = max 0 (protocolBalance state - INITIAL_RESERVE) \<and>
   map collected (fst (refundLoop (surplusOf state) (queue state)))
     = refunded (surplusOf state) (queue state) \<and>
   snd (refundLoop (surplusOf state) (queue state))
     = max 0 (surplusOf state - sum_list (map principal (queue state))) \<and>
   protocolBalance (refundPhase state) = reserveSetOnSurplus state \<and>
   handleMidnightReset cfg orc state = settleWith (reserveSetOnSurplus state) cfg orc state"
proof -
  have s: "0 \<le> surplusOf state" by (simp add: surplusOf_def)
  have "handleMidnightReset cfg orc state = settleWith (reserveSetOnSurplus state) cfg orc state"
    unfolding handleMidnightReset_def settleWith_def Let_def
    using refundPhase_rest [of state]
    by (simp add: refundPhase_reserve wiped_refundPhase)
  then show ?thesis
    using refundLoop_spec [OF s, of "queue state"] refundPhase_reserve [of state]
    by (simp add: surplusOf_def)
qed

theorem settlement_sets_reserve_only_on_surplus_witness:
  "surplusOf scenario4 = 500 \<and>
   map collected (fst (refundLoop 500 (queue scenario4))) = [300, 150, 400] \<and>
   snd (refundLoop 500 (queue scenario4)) = 50 \<and>
   protocolBalance (refundPhase scenario4) = 1050 \<and>
   protocolBalance (handleMidnightReset stdSettings orc0 scenario4) = 950 \<and>
   currentRound (handleMidnightReset stdSettings orc0 scenario4) = 2 \<and>
   map idP (queue (handleMidnightReset stdSettings orc0 scenario4)) = [PROTOCOL_SEED]"
proof -
  note T = settlement_sets_reserve_only_on_surplus [of scenario4 stdSettings orc0]
  have s: "surplusOf scenario4 = 500"
    by (simp add: surplusOf_def scenario4_def INITIAL_RESERVE_def initialEngine_def)
  have r: "refunded 500 (queue scenario4) = [300, 150, 400]"
    "sum_list (map principal (queue scenario4)) = 450"
    by (simp_all add: scenario4_def mkPlayer_def principal_def)
  have v: "reserveSetOnSurplus scenario4 = 1050"
    by (simp add: reserveSetOnSurplus_def s r INITIAL_RESERVE_def)
  have w: "protocolBalance (settleWith 1050 stdSettings orc0 scenario4) = 950 \<and>
      currentRound (settleWith 1050 stdSettings orc0 scenario4) = 2 \<and>
      map idP (queue (settleWith 1050 stdSettings orc0 scenario4)) = [PROTOCOL_SEED]"
    by (simp add: settleWith_def scenario4_def deposit_defs stdSettings_def orc0_def
        initialEngine_def)
  show ?thesis
    using T w unfolding s r v by simp
qed

section \<open>The ledger across one deposit\<close>

lemma exitPlayer_ledger:
  "protocolBalance (snd (exitPlayer cfg now isSystem i p state)) =
     protocolBalance state +
       (if winnersTaxEnabled cfg \<and> \<not> isSystem \<and> now i - timestamp p < 10000 \<and>
           target p - deposit p > 0
        then (target p - deposit p) * (20 / 100) else 0) \<and>
   historyCount (snd (exitPlayer cfg now isSystem i p state)) = historyCount state + 1 \<and>
   historySum (snd (exitPlayer cfg now isSystem i p state)) = historySum state + target p \<and>
   totalDeposited (snd (exitPlayer cfg now isSystem i p state)) = totalDeposited state \<and>
   currentRound (snd (exitPlayer cfg now isSystem i p state)) = currentRound state \<and>
   chartData (snd (exitPlayer cfg now isSystem i p state)) = chartData state \<and>
   tickCount (snd (exitPlayer cfg now isSystem i p state)) = tickCount state \<and>
   queue (snd (exitPlayer cfg now isSystem i p state)) = queue state"
  by (simp add: exitPlayer_def Let_def)

lemma cleanupSweep_ledger:
  "protocolBalance (snd (cleanupSweep cfg now isSystem i ps state)) =
     protocolBalance state + sweepTax cfg now isSystem i ps \<and>
   historyCount (snd (cleanupSweep cfg now isSystem i ps state)) =
     historyCount state + length (filter exits ps) \<and>
   historySum (snd (cleanupSweep cfg now isSystem i ps state)) =
     historySum state + sum_list (map target (filter exits ps)) \<and>
   totalDeposited (snd (cleanupSweep cfg now isSystem i ps state)) = totalDeposited state \<and>
   currentRound (snd (cleanupSweep cfg now isSystem i ps state)) = currentRound state \<and>
   chartData (snd (cleanupSweep cfg now isSystem i ps state)) = chartData state \<and>
   tickCount (snd (cleanupSweep cfg now isSystem i ps state)) = tickCount state"
proof (induction ps arbitrary: i state)
  case Nil
  then show ?case by simp
next
  case (Cons p ps)
  show ?case
  proof (cases "exits p")
    case True
    then have c: "target p - 1 / 100 \<le> collected p" by (simp add: exits_def)
    show ?thesis
      using True c Cons.IH [of "i + 1" "snd (exitPlayer cfg now isSystem i p state)"]
        exitPlayer_ledger [of cfg now isSystem i p state]
      by simp
  next
    case False
    then have c: "\<not> target p - 1 / 100 \<le> collected p" by (simp add: exits_def)
    show ?thesis
      using False c Cons.IH [of "i + 1" state]
      by (simp add: case_prod_beta)
  qed
qed

lemma takeFee_ledger:
  "protocolBalance (takeFee cfg orc amount isSystem state) =
     protocolBalance state + (if isSystem then 0 else actualFee amount) \<and>
   totalDeposited (takeFee cfg orc amount isSystem state) = totalDeposited state + amount \<and>
   tickCount (takeFee cfg orc amount isSystem state) = tickCount state + 1 \<and>
   historyCount (takeFee cfg orc amount isSystem state) = historyCount state \<and>
   historySum (takeFee cfg orc amount isSystem state) = historySum state \<and>
   currentRound (takeFee cfg orc amount isSystem state) = currentRound state \<and>
   chartData (takeFee cfg orc amount isSystem state) = chartData state"
  by (simp add: takeFee_def Let_def triggerGuillotine_def)

lemma pushChart_ledger:
  "protocolBalance (pushChart state) = protocolBalance state \<and>
   totalDeposited (pushChart state) = totalDeposited state \<and>
   tickCount (pushChart state) = tickCount state \<and>
   historyCount (pushChart state) = historyCount state \<and>
   historySum (pushChart state) = historySum state \<and>
   currentRound (pushChart state) = currentRound state"
  by (simp add: pushChart_def Let_def)

lemma processDeposit_ledger:
  fixes cfg orc amount isSystem state
  defines "paid \<equiv> paidQueue cfg orc amount isSystem (takeFee cfg orc amount isSystem state)"
  shows "protocolBalance (processDeposit cfg orc amount isSystem state) =
           protocolBalance state + (if isSystem then 0 else actualFee amount)
             + sweepTax cfg (nowSweep orc) isSystem 0 paid \<and>
         totalDeposited (processDeposit cfg orc amount isSystem state) =
           totalDeposited state + amount \<and>
         tickCount (processDeposit cfg orc amount isSystem state) = tickCount state + 1 \<and>
         historyCount (processDeposit cfg orc amount isSystem state) =
           historyCount state + length (filter exits paid) \<and>
         historySum (processDeposit cfg orc amount isSystem state) =
           historySum state + sum_list (map target (filter exits paid)) \<and>
         currentRound (processDeposit cfg orc amount isSystem state) = currentRound state"
proof -
  let ?s4 = "takeFee cfg orc amount isSystem state"
  let ?s7 = "?s4\<lparr>queue := paid\<rparr>"
  let ?sw = "cleanupSweep cfg (nowSweep orc) isSystem 0 paid ?s7"
  have pd: "processDeposit cfg orc amount isSystem state = pushChart (snd ?sw\<lparr>queue := fst ?sw\<rparr>)"
    unfolding processDeposit_def Let_def paid_def by (simp add: case_prod_beta)
  show ?thesis
    unfolding pd
    using cleanupSweep_ledger [of cfg "nowSweep orc" isSystem 0 paid ?s7]
      takeFee_ledger [of cfg orc amount isSystem state]
    by (simp add: pushChart_ledger)
qed

lemma sweepTax_system: "sweepTax cfg now True i ps = 0"
  by (induction ps arbitrary: i) simp_all

lemma pushChart_last:
  "chartData (pushChart state) \<noteq> [] \<and>
   last (chartData (pushChart state)) =
     \<lparr>roundC = totalDeposited state, usersTrapped = length (queue state),
      requiredNewLiquidity = foldl (\<lambda>acc p. acc + (target p - collected p)) 0 (queue state)\<rparr>"
proof -
  have "length (xs @ [x]) > 100 \<Longrightarrow> tl (xs @ [x]) \<noteq> [] \<and> last (tl (xs @ [x])) = x"
    for x :: ChartDataPoint and xs
    by (cases xs) auto
  then show ?thesis
    by (auto simp: pushChart_def Let_def)
qed

section \<open>Winners tax\<close>

lemma drained_reachable: "reachable direct drained"
  unfolding drained_def by (intro reachable.settle reachable.start)

lemma drained_paid:
  "paidQueue taxSettings orc0 250 False (takeFee taxSettings orc0 250 False drained) =
     [\<lparr>idP = PROTOCOL_SEED, deposit = 100, target = 200, collected = 200, entryRound = 2,
        timestamp = 0, slashed = Some False, multiplier = None\<rparr>,
      \<lparr>idP = uuid orc0, deposit = 250, target = 500, collected = 0, entryRound = 2,
        timestamp = 0, slashed = Some False, multiplier = None\<rparr>]"
  unfolding drained_eq
  by (simp add: deposit_defs taxSettings_def stdSettings_def orc0_def)

text \<open>
  A player with the id \<open>PROTOCOL_SEED\<close> is taxed like anybody else.  After one midnight
  reset the queue holds the seed (deposit 100, target 200); with the winners tax on, a
  user deposit of 250 five seconds later pays the seed out, and the reserve grows by the
  fee 2.5 and by the tax 20 on the seed's profit of 100.  A tax that exempted players by
  their id would take nothing here.
\<close>

theorem winners_tax_seed_counterexample:
  "reachable False drained \<and> map idP (queue drained) = [PROTOCOL_SEED] \<and>
   map idP (queue (processDeposit taxSettings orc0 250 False drained)) = [uuid orc0] \<and>
   protocolBalance (processDeposit taxSettings orc0 250 False drained)
     = protocolBalance drained + actualFee 250 + 20 \<and>
   sweepTaxById taxSettings (nowSweep orc0) 0
     (paidQueue taxSettings orc0 250 False (takeFee taxSettings orc0 250 False drained)) = 0"
proof -
  have a: "map idP (queue drained) = [PROTOCOL_SEED]"
    unfolding drained_eq by simp
  have b: "map idP (queue (processDeposit taxSettings orc0 250 False drained)) = [uuid orc0]"
    unfolding processDeposit_queue drained_paid by simp
  have c: "protocolBalance (processDeposit taxSettings orc0 250 False drained)
     = protocolBalance drained + actualFee 250 + 20"
    using processDeposit_ledger [of taxSettings orc0 250 False drained]
    unfolding drained_paid
    by (simp add: exits_def taxSettings_def stdSettings_def orc0_def)
  have d: "sweepTaxById taxSettings (nowSweep orc0) 0
     (paidQueue taxSettings orc0 250 False (takeFee taxSettings orc0 250 False drained)) = 0"
    unfolding drained_paid by (simp add: exits_def)
  show ?thesis
    using a b c d drained_reachable by simp
qed

text \<open>
  C4, as the code has it.  The exemption is the system flag of the deposit being
  processed, not the identity of the exiting player.  A player that exits has its
  collected amount set to its target, and the full target goes into the paid-out sum.
  In the sweep of a deposit that is not a system deposit, the reserve gets 20% of the
  profit \<open>target - deposit\<close> of every exiting player whose timestamp is less than 10000
  milliseconds old when that profit is positive and the tax is enabled, and nothing
  otherwise; in the sweep of a system deposit it gets nothing.  Over a whole deposit the
  reserve grows by the fee and by these taxes.
\<close>

theorem winners_tax_keyed_on_deposit_flag:
  fixes cfg :: Settings and orc :: Oracle and state :: EngineState
    and amount :: real and isSystem :: bool
  defines "paid \<equiv> paidQueue cfg orc amount isSystem (takeFee cfg orc amount isSystem state)"
  shows "collected (fst (exitPlayer cfg now isSystem i p state)) = target p \<and>
         historySum (snd (exitPlayer cfg now isSystem i p state)) = historySum state + target p \<and>
         protocolBalance (snd (exitPlayer cfg now False i p state)) =
           protocolBalance state +
             (if winnersTaxEnabled cfg \<and> now i - timestamp p < 10000 \<and> target p - deposit p > 0
              then (target p - deposit p) * (20 / 100) else 0) \<and>
         protocolBalance (snd (exitPlayer cfg now True i p state)) = protocolBalance state \<and>
         protocolBalance (processDeposit cfg orc amount isSystem state) =
           protocolBalance state + (if isSystem then 0 else actualFee amount)
             + sweepTax cfg (nowSweep orc) isSystem 0 paid \<and>
         historySum (processDeposit cfg orc amount isSystem state) =
           historySum state + sum_list (map target (filter exits paid)) \<and>
         sweepTax cfg now True i ps = 0"
  using exitPlayer_ledger [of cfg now False i p state] exitPlayer_ledger [of cfg now True i p state]
    exitPlayer_ledger [of cfg now isSystem i p state]
    processDeposit_ledger [of cfg orc amount isSystem state]
  unfolding paid_def
  by (simp add: sweepTax_system exitPlayer_def Let_def)

section \<open>Deposits are never rejected\<close>

text \<open>
  A deposit of \<open>-5\<close> into the initial engine is processed: the tick counter, the total
  deposited (now negative), the reserve, the exit counters and the chart all change.
  So is a deposit of 0.
\<close>

theorem deposit_rejection_counterexample:
  "processDeposit stdSettings orc0 (- 5) False initialEngine \<noteq> initialEngine \<and>
   tickCount (processDeposit stdSettings orc0 (- 5) False initialEngine) = 1 \<and>
   totalDeposited (processDeposit stdSettings orc0 (- 5) False initialEngine) = - 5 \<and>
   protocolBalance (processDeposit stdSettings orc0 (- 5) False initialEngine) = 1001 \<and>
   historyCount (processDeposit stdSettings orc0 (- 5) False initialEngine) = 1 \<and>
   historySum (processDeposit stdSettings orc0 (- 5) False initialEngine) = - 10 \<and>
   length (chartData (processDeposit stdSettings orc0 (- 5) False initialEngine)) = 1 \<and>
   processDeposit stdSettings orc0 0 False initialEngine \<noteq> initialEngine \<and>
   protocolBalance (processDeposit stdSettings orc0 0 False initialEngine) = 1001 \<and>
   tickCount (processDeposit stdSettings orc0 0 False initialEngine) = 1"
proof -
  have a: "processDeposit stdSettings orc0 (- 5) False initialEngine =
     \<lparr>queue = [], historyCount = 1, historySum = - 10, totalDeposited = - 5,
      protocolBalance = 1001, currentRound = 1,
      chartData = [\<lparr>roundC = - 5, usersTrapped = 0, requiredNewLiquidity = 0\<rparr>],
      tickCount = 1\<rparr>"
    by (simp add: deposit_defs stdSettings_def initialEngine_def orc0_def)
  have b: "processDeposit stdSettings orc0 0 False initialEngine =
     \<lparr>queue = [], historyCount = 1, historySum = 0, totalDeposited = 0,
      protocolBalance = 1001, currentRound = 1,
      chartData = [\<lparr>roundC = 0, usersTrapped = 0, requiredNewLiquidity = 0\<rparr>],
      tickCount = 1\<rparr>"
    by (simp add: deposit_defs stdSettings_def initialEngine_def orc0_def)
  show ?thesis
    unfolding a b by (simp add: initialEngine_def)
qed

text \<open>
  C5, as the code has it.  \<open>processDeposit\<close> checks nothing about the amount.  For every
  amount, positive or not, it increments the tick counter, adds the amount to the total
  deposited, adds the fee \<open>max(1, amount * 0.01)\<close> of a non-system deposit and the
  winners taxes of the sweep to the reserve, and appends a chart sample that carries the
  new total and the new queue length.
\<close>

theorem deposit_never_rejected:
  fixes cfg :: Settings and orc :: Oracle and state :: EngineState
    and amount :: real and isSystem :: bool
  defines "state' \<equiv> processDeposit cfg orc amount isSystem state"
  shows "tickCount state' = tickCount state + 1 \<and>
         totalDeposited state' = totalDeposited state + amount \<and>
         protocolBalance state' =
           protocolBalance state + (if isSystem then 0 else max 1 (amount * (1 / 100)))
             + sweepTax cfg (nowSweep orc) isSystem 0
                 (paidQueue cfg orc amount isSystem (takeFee cfg orc amount isSystem state)) \<and>
         chartData state' \<noteq> [] \<and>
         roundC (last (chartData state')) = totalDeposited state + amount \<and>
         usersTrapped (last (chartData state')) = length (queue state')"
proof -
  let ?s4 = "takeFee cfg orc amount isSystem state"
  let ?paid = "paidQueue cfg orc amount isSystem ?s4"
  let ?s7 = "?s4\<lparr>queue := ?paid\<rparr>"
  let ?sw = "cleanupSweep cfg (nowSweep orc) isSystem 0 ?paid ?s7"
  have pd: "state' = pushChart (snd ?sw\<lparr>queue := fst ?sw\<rparr>)"
    unfolding state'_def processDeposit_def Let_def by (simp add: case_prod_beta)
  have td: "totalDeposited (snd ?sw\<lparr>queue := fst ?sw\<rparr>) = totalDeposited state + amount"
    using cleanupSweep_ledger [of cfg "nowSweep orc" isSystem 0 ?paid ?s7]
      takeFee_ledger [of cfg orc amount isSystem state]
    by simp
  have ch: "chartData state' \<noteq> [] \<and>
      roundC (last (chartData state')) = totalDeposited state + amount \<and>
      usersTrapped (last (chartData state')) = length (queue state')"
    unfolding pd using pushChart_last [of "snd ?sw\<lparr>queue := fst ?sw\<rparr>"] td
    by (simp add: queue_pushChart)
  show ?thesis
    using ch processDeposit_ledger [of cfg orc amount isSystem state]
    unfolding state'_def by (simp add: actualFee_def FEE_PERCENT_def)
qed

section \<open>Conservation under the STANDARD strategy\<close>

lemma distributeHead_conserves:
  "totalCollected (fst (distributeHead rem q)) - totalCollected q
     = min (max 0 rem) (sum_list (map need q))"
proof (induction q arbitrary: rem)
  case Nil
  then show ?case by (simp add: totalCollected_def)
next
  case (Cons p ps)
  have tot: "0 \<le> sum_list (map need ps)"
    by (rule sum_list_nonneg) (auto simp: need_def)
  have n0: "0 \<le> need p" by (simp add: need_def)
  show ?case
  proof (cases "rem \<le> 0")
    case True
    then show ?thesis using tot n0 by (simp add: totalCollected_def)
  next
    case pos: False
    show ?thesis
    proof (cases "target p - collected p \<le> 0")
      case True
      then have "need p = 0" by (simp add: need_def)
      then show ?thesis
        using pos True Cons.IH [of rem]
        by (simp add: totalCollected_def case_prod_beta)
    next
      case needs: False
      then have np: "need p = target p - collected p" by (simp add: need_def)
      show ?thesis
      proof (cases "rem \<ge> target p - collected p")
        case True
        then show ?thesis
          using pos needs np tot Cons.IH [of "rem - (target p - collected p)"]
          by (simp add: totalCollected_def case_prod_beta min_def max_def split: if_splits)
      next
        case False
        then show ?thesis
          using pos needs np tot Cons.IH [of 0]
          by (simp add: totalCollected_def case_prod_beta min_def max_def split: if_splits)
      qed
    qed
  qed
qed

lemma standard_paidQueue:
  assumes "strategy cfg = STANDARD" and "\<not> guillotineEnabled cfg"
  shows "paidQueue cfg orc amount False (takeFee cfg orc amount False state) =
           fst (distributeHead (amount - max 1 (amount * (1 / 100))) (queue state))
           @ [newPlayer cfg orc amount False (takeFee cfg orc amount False state)]"
  using assms
  by (simp add: paidQueue_def queue_takeFee headPoolOf_def yieldPoolOf_def
      distributeYield_def netAmountOf_def actualFee_def FEE_PERCENT_def)

lemma oneWaiting_queue:
  "queue oneWaiting =
     [\<lparr>idP = uuid orc0, deposit = 100, target = 200, collected = 0, entryRound = 1,
       timestamp = 0, slashed = Some False, multiplier = None\<rparr>]"
  by (simp add: oneWaiting_def deposit_defs stdSettings_def initialEngine_def orc0_def)

lemma oneWaiting_reachable: "reachable direct oneWaiting"
  unfolding oneWaiting_def by (intro reachable.deposit reachable.start uuid_orc0)

text \<open>
  A deposit of 0.5 has the fee 1 and the net amount \<open>-0.5\<close>.  Against a queue of one
  player who needs 200, nothing is credited, while the minimum of the net amount and the
  total need is \<open>-0.5\<close>.
\<close>

theorem standard_conservation_counterexample:
  "reachable False oneWaiting \<and> 0 < (1 / 2 :: real) \<and> netAmountOf (1 / 2) False = - (1 / 2) \<and>
   totalCollected (fst (distributeHead (netAmountOf (1 / 2) False) (queue oneWaiting)))
     - totalCollected (queue oneWaiting) = 0 \<and>
   min (netAmountOf (1 / 2) False) (sum_list (map need (queue oneWaiting))) = - (1 / 2) \<and>
   map collected (queue (processDeposit stdSettings orc0 (1 / 2) False oneWaiting)) = [0, 0]"
proof -
  have n: "netAmountOf (1 / 2) False = - (1 / 2)"
    by (simp add: netAmountOf_def actualFee_def FEE_PERCENT_def)
  have a: "totalCollected (fst (distributeHead (- (1 / 2)) (queue oneWaiting)))
     - totalCollected (queue oneWaiting) = 0"
    unfolding oneWaiting_queue by (simp add: totalCollected_def)
  have b: "min (- (1 / 2)) (sum_list (map need (queue oneWaiting))) = - (1 / 2)"
    unfolding oneWaiting_queue by (simp add: need_def)
  have c: "map collected (queue (processDeposit stdSettings orc0 (1 / 2) False oneWaiting)) = [0, 0]"
    unfolding processDeposit_queue
    by (simp add: paidQueue_def queue_takeFee oneWaiting_queue deposit_defs stdSettings_def orc0_def)
  show ?thesis
    using a b c oneWaiting_reachable unfolding n by simp
qed

text \<open>
  C7, as the code has it.  Under the STANDARD strategy with the Guillotine, the decay
  and the winners tax off, a non-system deposit of amount \<open>A\<close> has the net amount
  \<open>A - max(1, A * 0.01)\<close>, and the FIFO loop credits the players that were in the queue
  with a total of \<open>min(max(0, net), sum of max(0, target - collected))\<close>: a negative net
  amount credits nothing.  The credits are those of the FIFO loop, before the cleanup
  sweep sets the collected amount of an exiting player to its target.
\<close>

theorem standard_conservation:
  assumes "strategy cfg = STANDARD" and "\<not> guillotineEnabled cfg"
    and "\<not> dynamicDecayEnabled cfg" and "\<not> winnersTaxEnabled cfg"
  shows "netAmountOf amount False = amount - max 1 (amount * (1 / 100)) \<and>
         take (length (queue state))
             (paidQueue cfg orc amount False (takeFee cfg orc amount False state))
           = fst (distributeHead (netAmountOf amount False) (queue state)) \<and>
         totalCollected (fst (distributeHead (netAmountOf amount False) (queue state)))
             - totalCollected (queue state)
           = min (max 0 (netAmountOf amount False)) (sum_list (map need (queue state))) \<and>
         queue (processDeposit cfg orc amount False state)
           = filter (\<lambda>p. \<not> exits p)
               (paidQueue cfg orc amount False (takeFee cfg orc amount False state))"
proof -
  have n: "netAmountOf amount False = amount - max 1 (amount * (1 / 100))"
    by (simp add: netAmountOf_def actualFee_def FEE_PERCENT_def)
  have len: "length (fst (distributeHead r q)) = length q" for r q
    using distributeHead_ids [of r q] by (metis length_map)
  have "take (length (queue state))
             (paidQueue cfg orc amount False (takeFee cfg orc amount False state))
           = fst (distributeHead (netAmountOf amount False) (queue state))"
    unfolding standard_paidQueue [OF assms(1,2)] n by (simp add: len)
  moreover have "queue (processDeposit cfg orc amount False state)
           = filter (\<lambda>p. \<not> exits p)
               (paidQueue cfg orc amount False (takeFee cfg orc amount False state))"
    unfolding processDeposit_queue exits_def by simp
  ultimately show ?thesis
    using n distributeHead_conserves [of "netAmountOf amount False" "queue state"] by simp
qed

theorem standard_conservation_witness:
  "strategy stdSettings = STANDARD \<and> \<not> guillotineEnabled stdSettings \<and>
   \<not> dynamicDecayEnabled stdSettings \<and> \<not> winnersTaxEnabled stdSettings \<and>
   netAmountOf 50 False = 49 \<and>
   totalCollected (fst (distributeHead (netAmountOf 50 False) (queue oneWaiting)))
     - totalCollected (queue oneWaiting) = 49 \<and>
   min (max 0 (netAmountOf 50 False)) (sum_list (map need (queue oneWaiting))) = 49"
proof -
  have c: "strategy stdSettings = STANDARD" "\<not> guillotineEnabled stdSettings"
    "\<not> dynamicDecayEnabled stdSettings" "\<not> winnersTaxEnabled stdSettings"
    by (simp_all add: stdSettings_def)
  have n: "netAmountOf 50 False = 49"
    by (simp add: netAmountOf_def actualFee_def FEE_PERCENT_def)
  have m: "min (max 0 49) (sum_list (map need (queue oneWaiting))) = 49"
    unfolding oneWaiting_queue by (simp add: need_def)
  show ?thesis
    using standard_conservation [OF c, of 50 oneWaiting orc0] c
    unfolding n m by simp
qed

section \<open>The multiplier at entry\<close>

text \<open>
  C8.  The object that \<open>processDeposit\<close> builds has no \<open>multiplier\<close> property: the
  target is the amount times the effective multiplier, and the field that should record
  that multiplier is undefined.  A deposit of 100 at multiplier 2 gives a player with
  target 200 and no recorded multiplier.
\<close>

theorem new_player_has_no_multiplier:
  "multiplier (newPlayer cfg orc amount isSystem state) = None \<and>
   target (newPlayer cfg orc amount isSystem state)
     = amount * effectiveMultiplier cfg isSystem (length (queue state)) \<and>
   effectiveMultiplier stdSettings False 0 = 2 \<and>
   map target (queue (processDeposit stdSettings orc0 100 False initialEngine)) = [200] \<and>
   map multiplier (queue (processDeposit stdSettings orc0 100 False initialEngine)) = [None]"
  by (simp add: deposit_defs stdSettings_def initialEngine_def orc0_def)

end
